theory Spec2Isabelle
  imports Complex_Main "HOL-Library.Char_ord" "HOL-Library.List_Lexorder"
begin

section \<open>Numbers\<close>

text \<open>
  The program computes with JavaScript numbers.  They are modelled as the real numbers
  extended with the three non-finite values; arithmetic on finite values is exact
  (rounding and overflow of the binary representation are not modelled) and the two
  zeros are identified, a division of a non-zero finite value by zero giving the
  infinity of the dividend's sign.  A value read from a missing property
  (\<^verbatim>\<open>undefined\<close>) behaves as \<open>NaN\<close> in every arithmetic operation, comparison
  and \<^verbatim>\<open>Number.isFinite\<close> test of the program, and is modelled by \<open>NaN\<close>.
\<close>

datatype number = Fin real | PInf | NInf | NaN

fun isFinite :: "number \<Rightarrow> bool" where
  "isFinite (Fin x) = True"
| "isFinite PInf = False"
| "isFinite NInf = False"
| "isFinite NaN = False"

fun nneg :: "number \<Rightarrow> number" where
  "nneg (Fin x) = Fin (- x)"
| "nneg PInf = NInf"
| "nneg NInf = PInf"
| "nneg NaN = NaN"

fun nadd :: "number \<Rightarrow> number \<Rightarrow> number" where
  "nadd (Fin x) (Fin y) = Fin (x + y)"
| "nadd NaN b = NaN"
| "nadd a NaN = NaN"
| "nadd PInf NInf = NaN"
| "nadd NInf PInf = NaN"
| "nadd PInf b = PInf"
| "nadd NInf b = NInf"
| "nadd a PInf = PInf"
| "nadd a NInf = NInf"

definition nsub :: "number \<Rightarrow> number \<Rightarrow> number" where
  "nsub a b = nadd a (nneg b)"

fun nmul :: "number \<Rightarrow> number \<Rightarrow> number" where
  "nmul (Fin x) (Fin y) = Fin (x * y)"
| "nmul NaN b = NaN"
| "nmul a NaN = NaN"
| "nmul (Fin x) PInf = (if x = 0 then NaN else if 0 < x then PInf else NInf)"
| "nmul (Fin x) NInf = (if x = 0 then NaN else if 0 < x then NInf else PInf)"
| "nmul PInf (Fin y) = (if y = 0 then NaN else if 0 < y then PInf else NInf)"
| "nmul NInf (Fin y) = (if y = 0 then NaN else if 0 < y then NInf else PInf)"
| "nmul PInf PInf = PInf"
| "nmul PInf NInf = NInf"
| "nmul NInf PInf = NInf"
| "nmul NInf NInf = PInf"

fun ndiv :: "number \<Rightarrow> number \<Rightarrow> number" where
  "ndiv (Fin x) (Fin y) =
     (if y \<noteq> 0 then Fin (x / y)
      else if x = 0 then NaN else if 0 < x then PInf else NInf)"
| "ndiv NaN b = NaN"
| "ndiv a NaN = NaN"
| "ndiv (Fin x) PInf = Fin 0"
| "ndiv (Fin x) NInf = Fin 0"
| "ndiv PInf (Fin y) = (if 0 \<le> y then PInf else NInf)"
| "ndiv NInf (Fin y) = (if 0 \<le> y then NInf else PInf)"
| "ndiv PInf b = NaN"
| "ndiv NInf b = NaN"

fun nabs :: "number \<Rightarrow> number" where
  "nabs (Fin x) = Fin \<bar>x\<bar>"
| "nabs PInf = PInf"
| "nabs NInf = PInf"
| "nabs NaN = NaN"

text \<open>The comparisons \<^verbatim>\<open><\<close> and \<^verbatim>\<open><=\<close>; every comparison with \<open>NaN\<close> is false.\<close>

fun nlt :: "number \<Rightarrow> number \<Rightarrow> bool" where
  "nlt (Fin x) (Fin y) = (x < y)"
| "nlt NaN b = False"
| "nlt a NaN = False"
| "nlt a NInf = False"
| "nlt PInf b = False"
| "nlt NInf b = True"
| "nlt a PInf = True"

fun nle :: "number \<Rightarrow> number \<Rightarrow> bool" where
  "nle (Fin x) (Fin y) = (x \<le> y)"
| "nle NaN b = False"
| "nle a NaN = False"
| "nle NInf b = True"
| "nle a PInf = True"
| "nle a NInf = False"
| "nle PInf b = False"

definition ngt :: "number \<Rightarrow> number \<Rightarrow> bool" where
  "ngt a b = nlt b a"

definition nge :: "number \<Rightarrow> number \<Rightarrow> bool" where
  "nge a b = nle b a"

text \<open>\<^verbatim>\<open>Math.min\<close> and \<^verbatim>\<open>Math.max\<close> of two arguments: \<open>NaN\<close> if either is.\<close>

fun nmin :: "number \<Rightarrow> number \<Rightarrow> number" where
  "nmin NaN b = NaN"
| "nmin a NaN = NaN"
| "nmin a b = (if nle a b then a else b)"

fun nmax :: "number \<Rightarrow> number \<Rightarrow> number" where
  "nmax NaN b = NaN"
| "nmax a NaN = NaN"
| "nmax a b = (if nle a b then b else a)"

fun nsqrt :: "number \<Rightarrow> number" where
  "nsqrt (Fin x) = (if x < 0 then NaN else Fin (sqrt x))"
| "nsqrt PInf = PInf"
| "nsqrt NInf = NaN"
| "nsqrt NaN = NaN"

fun nlog :: "number \<Rightarrow> number" where
  "nlog (Fin x) = (if x < 0 then NaN else if x = 0 then NInf else Fin (ln x))"
| "nlog PInf = PInf"
| "nlog NInf = NaN"
| "nlog NaN = NaN"

section \<open>Data model\<close>

type_synonym VarName = string

record Cell =
  cell_r :: number
  cell_n :: number

text \<open>
  \<^verbatim>\<open>CellMatrix = Record<VarName, Record<VarName, Cell>>\<close>: an object of row objects.
  A row or a cell may be absent; names that collide with members of the object
  prototype are left aside.
\<close>

type_synonym CellRow = "VarName \<rightharpoonup> Cell"
type_synonym CellMatrix = "VarName \<rightharpoonup> CellRow"

record Edge =
  e_from :: VarName
  e_to :: VarName

record Coef =
  c_from :: VarName
  c_to :: VarName
  beta :: number

text \<open>The two cell literals of the program: \<^verbatim>\<open>{ r: 1, n: Number.NaN }\<close> and
  \<^verbatim>\<open>{ r: Number.NaN, n: Number.NaN }\<close>.\<close>

definition diagCell :: Cell where
  "diagCell = \<lparr> cell_r = Fin 1, cell_n = NaN \<rparr>"

definition nanCell :: Cell where
  "nanCell = \<lparr> cell_r = NaN, cell_n = NaN \<rparr>"

text \<open>\<^verbatim>\<open>M[a]?.[b]\<close>, whatever the cells hold.\<close>

definition getCell :: "(VarName \<rightharpoonup> VarName \<rightharpoonup> 'c) \<Rightarrow> VarName \<Rightarrow> VarName \<Rightarrow> 'c option" where
  "getCell M a b = (case M a of None \<Rightarrow> None | Some row \<Rightarrow> row b)"

section \<open>Degrees of freedom\<close>

record DFCount =
  df :: real
  df0 :: real
  observedMoments :: real
  freeParams :: real
  endoCount :: nat

definition countDF :: "VarName list \<Rightarrow> Edge list \<Rightarrow> DFCount" where
  "countDF vars edges =
     (let observedMoments' = (real (length vars) * (real (length vars) + 1)) / 2;
          endogenous = set (map e_to edges);
          endoCount' = length (filter (\<lambda>v. v \<in> endogenous) vars);
          freeParams' = real (length edges) + real endoCount';
          df' = max 0 (observedMoments' - freeParams');
          df0' = (real (length vars) * (real (length vars) - 1)) / 2
      in \<lparr> df = df', df0 = df0', observedMoments = observedMoments',
           freeParams = freeParams', endoCount = endoCount' \<rparr>)"

section \<open>Errors\<close>

text \<open>
  Exceptions are values.  \<open>TypeError\<close> is the exception JavaScript raises when a property
  of \<^verbatim>\<open>undefined\<close> is read or written; the other two are the \<^verbatim>\<open>Error\<close>s the
  kernel and the fit function throw; \<open>TextError\<close> carries the kind of the \<^verbatim>\<open>Error\<close>
  the matrix text parser throws; \<open>SyntaxError\<close> is what \<^verbatim>\<open>JSON.parse\<close> throws.
\<close>

datatype text_error =
    EmptyText
  | TooFewRows
  | BadHeader
  | EmptyHeaderName
  | DuplicateHeaderNames
  | EmptyRowName nat
  | MissingRowFor string
  | MissingCellFor string string

datatype js_error = TypeError | SingularMatrix | NotPositiveDefinite | TextError text_error | SyntaxError

fun mapE :: "('a \<Rightarrow> 'e + 'b) \<Rightarrow> 'a list \<Rightarrow> 'e + 'b list" where
  "mapE f [] = Inr []"
| "mapE f (x # xs) =
     (case f x of Inl e \<Rightarrow> Inl e
      | Inr y \<Rightarrow> (case mapE f xs of Inl e \<Rightarrow> Inl e | Inr ys \<Rightarrow> Inr (y # ys)))"

fun foldE :: "('s \<Rightarrow> 'a \<Rightarrow> 'e + 's) \<Rightarrow> 's \<Rightarrow> 'a list \<Rightarrow> 'e + 's" where
  "foldE f s [] = Inr s"
| "foldE f s (x # xs) = (case f s x of Inl e \<Rightarrow> Inl e | Inr s' \<Rightarrow> foldE f s' xs)"

section \<open>Small matrix algebra\<close>

type_synonym matrix = "number list list"

text \<open>\<^verbatim>\<open>v[i]\<close> and \<^verbatim>\<open>A[i][j]\<close> for an existing row \<open>i\<close>; a read past the end is \<^verbatim>\<open>undefined\<close>.\<close>

definition nth_num :: "number list \<Rightarrow> nat \<Rightarrow> number" where
  "nth_num v i = (if i < length v then v ! i else NaN)"

definition entry :: "matrix \<Rightarrow> nat \<Rightarrow> nat \<Rightarrow> number" where
  "entry A i j = nth_num (A ! i) j"

definition matIdentity :: "nat \<Rightarrow> matrix" where
  "matIdentity n = map (\<lambda>i. map (\<lambda>j. if i = j then Fin 1 else Fin 0) [0..<n]) [0..<n]"

definition matClone :: "matrix \<Rightarrow> matrix" where
  "matClone A = map (\<lambda>r. r) A"

definition transposeM :: "matrix \<Rightarrow> js_error + matrix" where
  "transposeM A =
     (case A of [] \<Rightarrow> Inl TypeError
      | row0 # _ \<Rightarrow> Inr (map (\<lambda>j. map (\<lambda>row. nth_num row j) A) [0..<length row0]))"

definition matMul :: "matrix \<Rightarrow> matrix \<Rightarrow> js_error + matrix" where
  "matMul A B =
     (case B of [] \<Rightarrow> Inl TypeError
      | b0 # _ \<Rightarrow>
         (let n = length A; m = length b0; k = length B
          in Inr (map (\<lambda>i. map (\<lambda>j. foldl (\<lambda>s t. nadd s (nmul (entry A i t) (entry B t j))) (Fin 0) [0..<k])
                              [0..<m])
                     [0..<n])))"

text \<open>\<^verbatim>\<open>row.reduce((s, x, i) => s + x * v[i], 0)\<close>\<close>

definition vecDot :: "number list \<Rightarrow> number list \<Rightarrow> number" where
  "vecDot a b = foldl (\<lambda>s (x, i). nadd s (nmul x (nth_num b i))) (Fin 0) (zip a [0..<length a])"

definition matVecMul :: "matrix \<Rightarrow> number list \<Rightarrow> number list" where
  "matVecMul A v =
     map (\<lambda>row. foldl (\<lambda>s (x, i). nadd s (nmul x (nth_num v i))) (Fin 0) (zip row [0..<length row])) A"

definition matTrace :: "matrix \<Rightarrow> number" where
  "matTrace A = foldl (\<lambda>s (row, i). nadd s (nth_num row i)) (Fin 0) (zip A [0..<length A])"

text \<open>
  The pivot search shared by the inverse and the determinant:
  \<^verbatim>\<open>for (let r = col; r < n; r++) if (Math.abs(M[r][col]) > Math.abs(M[pivotRow][col])) pivotRow = r;\<close>
\<close>

definition pivotSearch :: "matrix \<Rightarrow> nat \<Rightarrow> nat \<Rightarrow> nat" where
  "pivotSearch M n col =
     foldl (\<lambda>pivotRow r. if ngt (nabs (entry M r col)) (nabs (entry M pivotRow col)) then r else pivotRow)
       col [col..<n]"

text \<open>\<^verbatim>\<open>[M[i], M[j]] = [M[j], M[i]]\<close>\<close>

definition swapRows :: "matrix \<Rightarrow> nat \<Rightarrow> nat \<Rightarrow> matrix" where
  "swapRows M i j = M[i := M ! j, j := M ! i]"

text \<open>
  One column of the Gauss-Jordan elimination of \<^verbatim>\<open>matInverse\<close>, on the pair of the
  working matrix \<open>M\<close> and the accumulated inverse \<open>I\<close>: pivot search, the singularity
  test, the row swap, the division of the pivot row by the pivot, and the elimination
  of the column from every other row (its factor read before the row changes).
\<close>

definition gjStep :: "nat \<Rightarrow> matrix \<times> matrix \<Rightarrow> nat \<Rightarrow> js_error + matrix \<times> matrix" where
  "gjStep n MI col =
     (let M = fst MI; I = snd MI;
          pivotRow = pivotSearch M n col
      in if nlt (nabs (entry M pivotRow col)) (Fin 0.000000000001) then Inl SingularMatrix
         else
           (let M1 = swapRows M col pivotRow;
                I1 = swapRows I col pivotRow;
                piv = entry M1 col col;
                M2 = M1[col := map (\<lambda>j. ndiv (entry M1 col j) piv) [0..<n]];
                I2 = I1[col := map (\<lambda>j. ndiv (entry I1 col j) piv) [0..<n]];
                M3 = map (\<lambda>r. if r = col then M2 ! r
                                else map (\<lambda>j. nsub (entry M2 r j) (nmul (entry M2 r col) (entry M2 col j))) [0..<n])
                       [0..<n];
                I3 = map (\<lambda>r. if r = col then I2 ! r
                                else map (\<lambda>j. nsub (entry I2 r j) (nmul (entry M2 r col) (entry I2 col j))) [0..<n])
                       [0..<n]
            in Inr (M3, I3)))"

definition matInverse :: "matrix \<Rightarrow> js_error + matrix" where
  "matInverse A =
     (let n = length A
      in case foldE (gjStep n) (matClone A, matIdentity n) [0..<n] of
           Inl e \<Rightarrow> Inl e
         | Inr MI \<Rightarrow> Inr (snd MI))"

text \<open>
  One column of \<^verbatim>\<open>matDet\<close> on the pair of the working matrix and the running
  determinant; \<open>Inl\<close> is the early \<^verbatim>\<open>return 0\<close>.
\<close>

definition detStep :: "nat \<Rightarrow> matrix \<times> number \<Rightarrow> nat \<Rightarrow> number + matrix \<times> number" where
  "detStep n Md i =
     (let M = fst Md; d = snd Md;
          pivot = pivotSearch M n i
      in if nlt (nabs (entry M pivot i)) (Fin 0.000000000001) then Inl (Fin 0)
         else
           (let M1 = (if pivot \<noteq> i then swapRows M i pivot else M);
                d1 = (if pivot \<noteq> i then nmul d (Fin (- 1)) else d);
                d2 = nmul d1 (entry M1 i i);
                piv = entry M1 i i;
                M2 = map (\<lambda>r. if i < r
                                then map (\<lambda>c. if c < i then entry M1 r c
                                               else nsub (entry M1 r c) (nmul (ndiv (entry M1 r i) piv) (entry M1 i c)))
                                       [0..<n]
                                else M1 ! r)
                       [0..<n]
            in Inr (M2, d2)))"

definition matDet :: "matrix \<Rightarrow> number" where
  "matDet A =
     (let n = length A
      in case foldE (detStep n) (matClone A, Fin 1) [0..<n] of
           Inl z \<Rightarrow> z
         | Inr Md \<Rightarrow> snd Md)"

section \<open>Path estimation\<close>

definition parentsOf :: "VarName \<Rightarrow> Edge list \<Rightarrow> VarName list" where
  "parentsOf node edges = map e_from (filter (\<lambda>e. e_to e = node) edges)"

text \<open>\<^verbatim>\<open>cellM[a][b].r\<close>: a \<open>TypeError\<close> when the row or the cell is absent.\<close>

definition readR :: "CellMatrix \<Rightarrow> VarName \<Rightarrow> VarName \<Rightarrow> js_error + number" where
  "readR cellM a b = (case getCell cellM a b of None \<Rightarrow> Inl TypeError | Some c \<Rightarrow> Inr (cell_r c))"

record EstPaths =
  coeffs :: "Coef list"
  r2 :: "VarName \<rightharpoonup> number"
  resid :: "VarName \<rightharpoonup> number"

text \<open>The body of the loop \<^verbatim>\<open>for (const y of vars)\<close> of \<^verbatim>\<open>estimatePathsFromCorrelation\<close>.\<close>

definition estimateVar :: "CellMatrix \<Rightarrow> Edge list \<Rightarrow> EstPaths \<Rightarrow> VarName \<Rightarrow> js_error + EstPaths" where
  "estimateVar cellM edges acc y =
     (let X = parentsOf y edges
      in if length X = 0 then Inr acc
         else
           (case mapE (\<lambda>a. mapE (\<lambda>b. readR cellM a b) X) X of
              Inl e \<Rightarrow> Inl e
            | Inr Rxx \<Rightarrow>
               (case mapE (\<lambda>a. readR cellM a y) X of
                  Inl e \<Rightarrow> Inl e
                | Inr rXy \<Rightarrow>
                   (case matInverse Rxx of
                      Inl e \<Rightarrow> Inl e
                    | Inr invR \<Rightarrow>
                       (let beta' = matVecMul invR rXy;
                            R2 = vecDot rXy beta'
                        in Inr \<lparr> coeffs = coeffs acc @
                                   map (\<lambda>(x, i). \<lparr> c_from = x, c_to = y, beta = nth_num beta' i \<rparr>)
                                     (zip X [0..<length X]),
                                 r2 = (r2 acc)(y \<mapsto> R2),
                                 resid = (resid acc)(y \<mapsto> nmax (Fin 0.00000001) (nsub (Fin 1) R2)) \<rparr>)))))"

definition estimatePathsFromCorrelation ::
  "VarName list \<Rightarrow> CellMatrix \<Rightarrow> Edge list \<Rightarrow> js_error + EstPaths" where
  "estimatePathsFromCorrelation vars cellM edges =
     (let endogenous = set (map e_to edges)
      in case foldE (estimateVar cellM edges) \<lparr> coeffs = [], r2 = Map.empty, resid = Map.empty \<rparr> vars of
           Inl e \<Rightarrow> Inl e
         | Inr acc \<Rightarrow>
            Inr (acc \<lparr> resid :=
                   foldl (\<lambda>res v. if v \<in> endogenous \<and> res v = None then res(v \<mapsto> Fin 1) else res)
                     (resid acc) vars \<rparr>))"

section \<open>Implied matrix and fit\<close>

text \<open>\<^verbatim>\<open>Object.fromEntries(vars.map((v, i) => [v, i]))\<close>: a later entry overrides.\<close>

definition idxOf :: "VarName list \<Rightarrow> VarName \<rightharpoonup> nat" where
  "idxOf vars = foldl (\<lambda>m (v, i). m(v \<mapsto> i)) Map.empty (zip vars [0..<length vars])"

definition zeros :: "nat \<Rightarrow> matrix" where
  "zeros p = map (\<lambda>i. map (\<lambda>j. Fin 0) [0..<p]) [0..<p]"

definition setEntry :: "matrix \<Rightarrow> nat \<Rightarrow> nat \<Rightarrow> number \<Rightarrow> matrix" where
  "setEntry A i j x = A[i := (A ! i)[j := x]]"

text \<open>
  \<^verbatim>\<open>impliedSigmaRecursive\<close>.  The indices \<open>idxOf\<close> yields are below \<open>p\<close>, so every
  write is inside the \<open>p \<times> p\<close> arrays; a coefficient whose target has no index writes to
  \<^verbatim>\<open>B[undefined]\<close>, a \<open>TypeError\<close>, and one whose source has none sets a
  non-numeric property of the row, which no later read sees.  \<open>S\<close> is the observed
  matrix; a read of a row it does not have is a \<open>TypeError\<close>.
\<close>

definition impliedSigmaRecursive ::
  "VarName list \<Rightarrow> matrix \<Rightarrow> Edge list \<Rightarrow> Coef list \<Rightarrow> (VarName \<rightharpoonup> number) \<Rightarrow> js_error + matrix" where
  "impliedSigmaRecursive vars S edges coefs residVar =
     (let p = length vars;
          idx = idxOf vars;
          endogenous = set (map e_to edges)
      in case foldE (\<lambda>B e. case idx (c_to e) of
                             None \<Rightarrow> Inl TypeError
                           | Some i \<Rightarrow> (case idx (c_from e) of
                                          None \<Rightarrow> Inr B
                                        | Some j \<Rightarrow> Inr (setEntry B i j (beta e))))
                (zeros p) coefs of
           Inl e \<Rightarrow> Inl e
         | Inr B \<Rightarrow>
            (let exoIdx = filter (\<lambda>i. vars ! i \<notin> endogenous) [0..<p]
             in case foldE (\<lambda>Psi (i, j). if i < length S then Inr (setEntry Psi i j (entry S i j))
                                          else Inl TypeError)
                       (zeros p) (concat (map (\<lambda>i. map (\<lambda>j. (i, j)) exoIdx) exoIdx)) of
                  Inl e \<Rightarrow> Inl e
                | Inr Psi1 \<Rightarrow>
                   (case foldE (\<lambda>Psi v. if v \<in> endogenous
                                         then (case idx v of
                                                 None \<Rightarrow> Inl TypeError
                                               | Some i \<Rightarrow>
                                                  Inr (setEntry Psi i i
                                                         (nmax (Fin 0.00000001)
                                                            (case residVar v of None \<Rightarrow> Fin 1 | Some x \<Rightarrow> x))))
                                         else Inr Psi)
                           Psi1 vars of
                      Inl e \<Rightarrow> Inl e
                    | Inr Psi \<Rightarrow>
                       (let I = matIdentity p;
                            IminusB = map (\<lambda>i. map (\<lambda>j. nsub (entry I i j) (entry B i j)) [0..<p]) [0..<p]
                        in case matInverse IminusB of
                             Inl e \<Rightarrow> Inl e
                           | Inr invR \<Rightarrow>
                              (case transposeM invR of
                                 Inl e \<Rightarrow> Inl e
                               | Inr invT \<Rightarrow>
                                  (case matMul invR Psi of
                                     Inl e \<Rightarrow> Inl e
                                   | Inr P \<Rightarrow> matMul P invT))))))"

text \<open>
  \<^verbatim>\<open>srmrOffDiag\<close>; \<open>Sig\<close> (the implied matrix) has as many rows as \<open>S\<close> where it is called (it is the
  product returned by \<open>impliedSigmaRecursive\<close>).
\<close>

definition srmrOffDiag :: "matrix \<Rightarrow> matrix \<Rightarrow> number" where
  "srmrOffDiag S Sig =
     (let p = length S;
          pairs = concat (map (\<lambda>i. map (\<lambda>j. (i, j)) [Suc i..<p]) [0..<p]);
          total = foldl (\<lambda>s (i, j). let d = nsub (entry S i j) (entry Sig i j) in nadd s (nmul d d))
                  (Fin 0) pairs;
          k = length pairs
      in nsqrt (ndiv total (nmax (Fin 1) (Fin (real k)))))"

definition fitML :: "matrix \<Rightarrow> matrix \<Rightarrow> number \<Rightarrow> js_error + number \<times> number" where
  "fitML S Sig N =
     (let p = length S;
          detS = matDet S;
          detSig = matDet Sig
      in if nle detS (Fin 0) \<or> nle detSig (Fin 0) then Inl NotPositiveDefinite
         else
           (case matInverse Sig of
              Inl e \<Rightarrow> Inl e
            | Inr SigInv \<Rightarrow>
               (case matMul S SigInv of
                  Inl e \<Rightarrow> Inl e
                | Inr SSi \<Rightarrow>
                   (let tr = matTrace SSi;
                        Fml = nsub (nsub (nadd (nlog detSig) tr) (nlog detS)) (Fin (real p));
                        chi2' = nmul (nsub N (Fin 1)) Fml;
                        Sigma0 = map (\<lambda>i. map (\<lambda>j. if i = j then entry S i i else Fin 0) [0..<p]) [0..<p];
                        det0 = matDet Sigma0
                    in case matInverse Sigma0 of
                         Inl e \<Rightarrow> Inl e
                       | Inr inv0 \<Rightarrow>
                          (case matMul S inv0 of
                             Inl e \<Rightarrow> Inl e
                           | Inr S0 \<Rightarrow>
                              (let tr0 = matTrace S0;
                                   F0 = nsub (nsub (nadd (nlog det0) tr0) (nlog detS)) (Fin (real p));
                                   chi2_0 = nmul (nsub N (Fin 1)) F0
                               in Inr (chi2', chi2_0)))))))"

record FitIndices =
  ix_cfi :: number
  ix_tli :: number
  ix_rmsea :: number

definition computeFitIndices :: "number \<Rightarrow> number \<Rightarrow> number \<Rightarrow> number \<Rightarrow> number \<Rightarrow> FitIndices" where
  "computeFitIndices chi2' df' chi2_0 df0' N =
     (let cfi' = nsub (Fin 1)
                  (ndiv (nmax (Fin 0) (nsub chi2' df'))
                        (nmax (Fin 0.000000000001) (nsub chi2_0 df0')));
          tli' = nsub (Fin 1)
                  (ndiv (nsub (ndiv chi2' (nmax (Fin 0.000000000001) df')) (Fin 1))
                        (nsub (ndiv chi2_0 (nmax (Fin 0.000000000001) df0')) (Fin 1)));
          rmsea' = nsqrt (nmax (Fin 0)
                     (ndiv (nsub chi2' df')
                           (nmul (nmax (Fin 0.000000000001) df') (nsub N (Fin 1)))))
      in \<lparr> ix_cfi = cfi', ix_tli = tli', ix_rmsea = rmsea' \<rparr>)"

section \<open>Validation\<close>

text \<open>
  The strings the validator pushes are modelled by their kind and the values
  interpolated into them.
\<close>

datatype finding =
    MissingRow VarName
  | MissingCell VarName VarName
  | InvalidR VarName VarName
  | ROutOfBounds VarName VarName number
  | DiagNotOne VarName VarName number
  | MissingN VarName VarName
  | NTooSmall VarName VarName number
  | NotSymmetricR VarName VarName
  | NNotSymmetric VarName VarName
  | VeryHighR VarName VarName

record Validation =
  ok :: bool
  errors :: "finding list"
  warnings :: "finding list"

text \<open>The body of the double loop over \<open>(r, c)\<close>: the findings it pushes to \<^verbatim>\<open>errors\<close>.\<close>

definition checkCell :: "CellMatrix \<Rightarrow> VarName \<Rightarrow> VarName \<Rightarrow> finding list" where
  "checkCell M r c =
     (case getCell M r c of
        None \<Rightarrow> [MissingCell r c]
      | Some cell \<Rightarrow>
         (let isDiag = (r = c);
              rr = cell_r cell
          in (if \<not> isFinite rr then [InvalidR r c]
              else (if nlt rr (Fin (- 1)) \<or> ngt rr (Fin 1) then [ROutOfBounds r c rr] else []) @
                   (if isDiag \<and> ngt (nabs (nsub rr (Fin 1))) (Fin 0.000001) then [DiagNotOne r c rr] else [])) @
             (if \<not> isDiag
              then (let nn = cell_n cell
                    in if \<not> isFinite nn then [MissingN r c]
                       else if nle nn (Fin 2) then [NTooSmall r c nn] else [])
              else [])))"

text \<open>\<^verbatim>\<open>c?.r\<close> and \<^verbatim>\<open>c?.n\<close> of a cell that may be absent.\<close>

definition optR :: "Cell option \<Rightarrow> number" where
  "optR c = (case c of None \<Rightarrow> NaN | Some x \<Rightarrow> cell_r x)"

definition optN :: "Cell option \<Rightarrow> number" where
  "optN c = (case c of None \<Rightarrow> NaN | Some x \<Rightarrow> cell_n x)"

text \<open>
  The body of the loop over the pairs \<open>i < j\<close>, on the pair of the lists \<^verbatim>\<open>errors\<close> and
  \<^verbatim>\<open>warnings\<close>.  Every row exists when the loop runs; \<^verbatim>\<open>M[a][b].r\<close> is read without
  the guard of the two tests before it, a \<open>TypeError\<close> when the cell is absent.
\<close>

definition checkPair ::
  "CellMatrix \<Rightarrow> finding list \<times> finding list \<Rightarrow> VarName \<times> VarName \<Rightarrow> js_error + finding list \<times> finding list" where
  "checkPair M ew ab =
     (let a = fst ab; b = snd ab;
          c1 = getCell M a b;
          c2 = getCell M b a;
          es = fst ew @
               (if isFinite (optR c1) \<and> isFinite (optR c2) \<and> ngt (nabs (nsub (optR c1) (optR c2))) (Fin 0.000001)
                then [NotSymmetricR a b] else []);
          ws = snd ew @
               (if isFinite (optN c1) \<and> isFinite (optN c2) \<and> ngt (nabs (nsub (optN c1) (optN c2))) (Fin 0.000001)
                then [NNotSymmetric a b] else [])
      in case readR M a b of
           Inl e \<Rightarrow> Inl e
         | Inr rr \<Rightarrow>
            Inr (es, ws @ (if isFinite rr \<and> nge (nabs rr) (Fin 0.999999) then [VeryHighR a b] else [])))"

text \<open>The pairs \<open>(vars[i], vars[j])\<close> with \<open>i < j\<close>, in the order of the two nested loops.\<close>

definition upperPairs :: "VarName list \<Rightarrow> (VarName \<times> VarName) list" where
  "upperPairs vars =
     concat (map (\<lambda>i. map (\<lambda>j. (vars ! i, vars ! j)) [Suc i..<length vars]) [0..<length vars])"

definition validateCellMatrix :: "VarName list \<Rightarrow> CellMatrix \<Rightarrow> js_error + Validation" where
  "validateCellMatrix vars M =
     (let errors0 = concat (map (\<lambda>r. if M r = None then [MissingRow r] else []) vars)
      in if errors0 \<noteq> [] then Inr \<lparr> ok = False, errors = errors0, warnings = [] \<rparr>
         else
           (let errors1 = concat (map (\<lambda>r. concat (map (\<lambda>c. checkCell M r c) vars)) vars)
            in case foldE (checkPair M) (errors1, []) (upperPairs vars) of
                 Inl e \<Rightarrow> Inl e
               | Inr ew \<Rightarrow> Inr \<lparr> ok = (fst ew = []), errors = fst ew, warnings = snd ew \<rparr>))"

section \<open>Total N\<close>

definition buildRMatrix :: "VarName list \<Rightarrow> CellMatrix \<Rightarrow> js_error + matrix" where
  "buildRMatrix vars M = mapE (\<lambda>r. mapE (\<lambda>c. readR M r c) vars) vars"

definition symN :: "CellMatrix \<Rightarrow> VarName \<Rightarrow> VarName \<Rightarrow> number" where
  "symN M a b =
     (let n1 = optN (getCell M a b);
          n2 = optN (getCell M b a)
      in if isFinite n1 \<and> isFinite n2 then nmin n1 n2
         else if isFinite n1 then n1
         else if isFinite n2 then n2
         else NaN)"

datatype N_method = Harmonic | Minimum

text \<open>\<^verbatim>\<open>Math.min(...ns)\<close>\<close>

definition mathMin :: "number list \<Rightarrow> number" where
  "mathMin ns = foldl nmin PInf ns"

definition computeTotalN :: "VarName list \<Rightarrow> CellMatrix \<Rightarrow> N_method \<Rightarrow> number" where
  "computeTotalN vars M method =
     (let ns = filter isFinite (map (\<lambda>ab. symN M (fst ab) (snd ab)) (upperPairs vars))
      in if length ns = 0 then NaN
         else if method = Minimum then mathMin ns
         else (let denom = foldl (\<lambda>d n. nadd d (ndiv (Fin 1) n)) (Fin 0) ns
               in ndiv (Fin (real (length ns))) denom))"

section \<open>The estimation run\<close>

record Fit =
  totalN :: number
  N_method_of :: N_method
  SRMR :: number
  fit_df :: real
  fit_observedMoments :: real
  fit_freeParams :: real
  endogenousCount :: nat
  chi2 :: "number option"
  rmsea :: "number option"
  cfi :: "number option"
  tli :: "number option"

record EstResult =
  est_coeffs :: "Coef list"
  est_r2 :: "VarName \<rightharpoonup> number"
  est_resid :: "VarName \<rightharpoonup> number"
  fit :: Fit

text \<open>The entries of the two message lists of the component.\<close>

datatype message = Finding finding | NoPaths | TotalNInvalid | DfZero | Thrown js_error

text \<open>What \<^verbatim>\<open>runEstimationAndStore\<close> leaves in the component state it sets.\<close>

record RunState =
  matrixErrors :: "message list"
  matrixWarnings :: "message list"
  lastEst :: "EstResult option"

text \<open>The \<^verbatim>\<open>try\<close> block: the result stored and the warnings set at its end.\<close>

definition runTry ::
  "VarName list \<Rightarrow> CellMatrix \<Rightarrow> Edge list \<Rightarrow> N_method \<Rightarrow> number \<Rightarrow> message list
     \<Rightarrow> js_error + EstResult \<times> message list" where
  "runTry vars cellM edges nMethod N warnings0 =
     (case buildRMatrix vars cellM of
        Inl e \<Rightarrow> Inl e
      | Inr S \<Rightarrow>
         (case estimatePathsFromCorrelation vars cellM edges of
            Inl e \<Rightarrow> Inl e
          | Inr est \<Rightarrow>
             (case impliedSigmaRecursive vars S edges (coeffs est) (resid est) of
                Inl e \<Rightarrow> Inl e
              | Inr Sig \<Rightarrow>
                 (let srmr = srmrOffDiag S Sig;
                      cd = countDF vars edges;
                      fit0 = \<lparr> totalN = N, N_method_of = nMethod, SRMR = srmr, fit_df = df cd,
                               fit_observedMoments = observedMoments cd, fit_freeParams = freeParams cd,
                               endogenousCount = endoCount cd,
                               chi2 = None, rmsea = None, cfi = None, tli = None \<rparr>
                  in if 0 < df cd
                     then (case fitML S Sig N of
                             Inl e \<Rightarrow> Inl e
                           | Inr cc \<Rightarrow>
                              (let ix = computeFitIndices (fst cc) (Fin (df cd)) (snd cc) (Fin (df0 cd)) N
                               in Inr (\<lparr> est_coeffs = coeffs est, est_r2 = r2 est, est_resid = resid est,
                                         fit = fit0 \<lparr> chi2 := Some (fst cc), rmsea := Some (ix_rmsea ix),
                                                      cfi := Some (ix_cfi ix), tli := Some (ix_tli ix) \<rparr> \<rparr>,
                                       warnings0)))
                     else Inr (\<lparr> est_coeffs = coeffs est, est_r2 = r2 est, est_resid = resid est,
                                 fit = fit0 \<rparr>,
                               warnings0 @ [DfZero])))))"

text \<open>
  \<^verbatim>\<open>runEstimationAndStore\<close> as a function of the component state it reads.  The call
  of the validator stands outside the \<^verbatim>\<open>try\<close>, so an exception it raises leaves the
  callback (\<open>Inl\<close>).
\<close>

definition runEstimationAndStore ::
  "VarName list \<Rightarrow> CellMatrix \<Rightarrow> Edge list \<Rightarrow> N_method \<Rightarrow> js_error + RunState" where
  "runEstimationAndStore vars cellM edges nMethod =
     (case validateCellMatrix vars cellM of
        Inl e \<Rightarrow> Inl e
      | Inr v \<Rightarrow>
         (let warnings0 = map Finding (warnings v);
              errors1 = (if length edges = 0 then [NoPaths] else []) @
                        (if \<not> ok v then map Finding (errors v) else []);
              N = (if ok v then computeTotalN vars cellM nMethod else NaN);
              errors2 = errors1 @
                        (if ok v \<and> (\<not> isFinite N \<or> nle N (Fin 2)) then [TotalNInvalid] else [])
          in if length errors2 \<noteq> 0
             then Inr \<lparr> matrixErrors = errors2, matrixWarnings = warnings0, lastEst = None \<rparr>
             else (case runTry vars cellM edges nMethod N warnings0 of
                     Inl e \<Rightarrow> Inr \<lparr> matrixErrors = [Thrown e], matrixWarnings = warnings0, lastEst = None \<rparr>
                   | Inr ew \<Rightarrow> Inr \<lparr> matrixErrors = errors2, matrixWarnings = snd ew,
                                   lastEst = Some (fst ew) \<rparr>)))"

section \<open>Constructing and editing the matrix\<close>

text \<open>\<^verbatim>\<open>M[r][c] = cell\<close>: a \<open>TypeError\<close> when the row \<^verbatim>\<open>M[r]\<close> is absent.\<close>

definition writeCell ::
  "(VarName \<rightharpoonup> VarName \<rightharpoonup> 'c) \<Rightarrow> VarName \<Rightarrow> VarName \<Rightarrow> 'c
     \<Rightarrow> js_error + (VarName \<rightharpoonup> VarName \<rightharpoonup> 'c)" where
  "writeCell M r c cell =
     (case M r of None \<Rightarrow> Inl TypeError | Some row \<Rightarrow> Inr (M(r \<mapsto> row(c \<mapsto> cell))))"

text \<open>\<^verbatim>\<open>M[a] ??= {}\<close> (and \<^verbatim>\<open>if (!M[a]) M[a] = {}\<close>)\<close>

definition ensureRow :: "(VarName \<rightharpoonup> VarName \<rightharpoonup> 'c) \<Rightarrow> VarName \<Rightarrow> (VarName \<rightharpoonup> VarName \<rightharpoonup> 'c)" where
  "ensureRow M a = (case M a of None \<Rightarrow> M(a \<mapsto> Map.empty) | Some row \<Rightarrow> M)"


text \<open>
  \<^verbatim>\<open>deepClone\<close> returns \<^verbatim>\<open>structuredClone(obj)\<close> where that function exists, and
  \<^verbatim>\<open>JSON.parse(JSON.stringify(obj))\<close> otherwise.  The first copies every number as it
  is.  The second writes \<open>NaN\<close> and the two infinities as \<^verbatim>\<open>null\<close>, which is what
  comes back.  So the matrix that the component keeps as its state, which the editing
  operations clone, has cells whose fields hold a number or \<^verbatim>\<open>null\<close>.  (The
  operations that build a matrix from nothing, and the validator and the estimator,
  are given over cells of numbers.)
\<close>

datatype stored = Num number | Null

record StoredCell =
  st_r :: stored
  st_n :: stored

type_synonym StoredMatrix = "VarName \<rightharpoonup> VarName \<rightharpoonup> StoredCell"

text \<open>A cell of numbers, and a matrix of them, as they are stored.\<close>

definition storeCell :: "Cell \<Rightarrow> StoredCell" where
  "storeCell cell = \<lparr> st_r = Num (cell_r cell), st_n = Num (cell_n cell) \<rparr>"


text \<open>What \<^verbatim>\<open>JSON.parse(JSON.stringify(x))\<close> gives for a field, a cell and a matrix.\<close>

fun jsonField :: "stored \<Rightarrow> stored" where
  "jsonField (Num (Fin x)) = Num (Fin x)"
| "jsonField (Num PInf) = Null"
| "jsonField (Num NInf) = Null"
| "jsonField (Num NaN) = Null"
| "jsonField Null = Null"

definition jsonCell :: "StoredCell \<Rightarrow> StoredCell" where
  "jsonCell cell = \<lparr> st_r = jsonField (st_r cell), st_n = jsonField (st_n cell) \<rparr>"

definition jsonMatrix :: "StoredMatrix \<Rightarrow> StoredMatrix" where
  "jsonMatrix M =
     (\<lambda>a. case M a of None \<Rightarrow> None
          | Some row \<Rightarrow> Some (\<lambda>b. case row b of None \<Rightarrow> None | Some cell \<Rightarrow> Some (jsonCell cell)))"

text \<open>
  \<^verbatim>\<open>deepClone\<close> of a matrix and of the value of a cell property; \<open>sc\<close> says whether
  \<^verbatim>\<open>globalThis.structuredClone\<close> is a function.  For \<^verbatim>\<open>undefined\<close>,
  \<^verbatim>\<open>JSON.stringify\<close> returns \<^verbatim>\<open>undefined\<close>, which \<^verbatim>\<open>JSON.parse\<close> rejects.
\<close>

definition deepClone :: "bool \<Rightarrow> StoredMatrix \<Rightarrow> StoredMatrix" where
  "deepClone sc M = (if sc then M else jsonMatrix M)"











text \<open>
  \<^verbatim>\<open>Partial<Cell>\<close>: each property present or not; the grid passes
  \<^verbatim>\<open>{ r: Number(..) }\<close> or \<^verbatim>\<open>{ n: Number(..) }\<close>.
\<close>

record CellPatch =
  patch_r :: "number option"
  patch_n :: "number option"

text \<open>\<^verbatim>\<open>{ ...old, ...patch }\<close>\<close>

definition applyPatch :: "StoredCell \<Rightarrow> CellPatch \<Rightarrow> StoredCell" where
  "applyPatch old patch =
     \<lparr> st_r = (case patch_r patch of None \<Rightarrow> st_r old | Some x \<Rightarrow> Num x),
       st_n = (case patch_n patch of None \<Rightarrow> st_n old | Some x \<Rightarrow> Num x) \<rparr>"

text \<open>The update of the matrix state by \<^verbatim>\<open>setCell(r, c, patch)\<close>.\<close>

definition setCell ::
  "bool \<Rightarrow> VarName \<Rightarrow> VarName \<Rightarrow> CellPatch \<Rightarrow> StoredMatrix \<Rightarrow> js_error + StoredMatrix" where
  "setCell sc r c patch prev =
     (let next0 = deepClone sc prev;
          old = (case getCell next0 r c of None \<Rightarrow> storeCell nanCell | Some x \<Rightarrow> x)
      in case writeCell (ensureRow next0 r) r c (applyPatch old patch) of
           Inl e \<Rightarrow> Inl e
         | Inr next1 \<Rightarrow>
            (if r \<noteq> c
             then (let next2 = ensureRow next1 c;
                       old2 = (case getCell next2 c r of None \<Rightarrow> storeCell nanCell | Some x \<Rightarrow> x)
                   in writeCell next2 c r (applyPatch old2 patch))
             else writeCell next1 r c (storeCell diagCell)))"

section \<open>Matrix text\<close>














section \<open>The text loader of the two-matrix variant\<close>

text \<open>
  The second source file reads the correlations and the sample sizes from two texts.
  After its first loop has filled the matrix \<open>m\<close> from the tokens, \<^verbatim>\<open>parseMatrixText\<close>
  runs the loop modelled here over the pairs \<open>i < j\<close>, and then forces the diagonal.
\<close>

definition clampR :: "number \<Rightarrow> number" where
  "clampR x =
     (if \<not> isFinite x then NaN
      else if ngt x (Fin 0.999) then Fin 0.999
      else if nlt x (Fin (- 0.999)) then Fin (- 0.999)
      else x)"

datatype load_warning =
    RMismatch VarName VarName number number
  | NMismatch VarName VarName number number

definition symmetryStep ::
  "CellMatrix \<times> load_warning list \<Rightarrow> VarName \<times> VarName \<Rightarrow> js_error + CellMatrix \<times> load_warning list" where
  "symmetryStep mw p =
     (let m = fst mw; a = fst p; b = snd p
      in case getCell m a b of
           None \<Rightarrow> Inl TypeError
         | Some ab \<Rightarrow>
            (case getCell m b a of
               None \<Rightarrow> Inl TypeError
             | Some ba \<Rightarrow>
                (let r1 = cell_r ab; r2 = cell_r ba;
                     n1 = cell_n ab; n2 = cell_n ba;
                     r1ok = isFinite r1; r2ok = isFinite r2;
                     n1ok = isFinite n1; n2ok = isFinite n2;
                     rMis = (r1ok \<and> r2ok \<and> ngt (nabs (nsub r1 r2)) (Fin 0.000001));
                     nMis = (n1ok \<and> n2ok \<and> ngt (nabs (nsub n1 n2)) (Fin 0.000001));
                     rFinal = (if rMis then clampR (ndiv (nadd r1 r2) (Fin 2))
                               else if r1ok then r1 else if r2ok then r2 else NaN);
                     nFinal = (if nMis then nmin n1 n2
                               else if n1ok then n1 else if n2ok then n2 else NaN);
                     warnings = snd mw @ (if rMis then [RMismatch a b r1 r2] else [])
                                       @ (if nMis then [NMismatch a b n1 n2] else [])
                 in case writeCell m a b \<lparr> cell_r = rFinal, cell_n = nFinal \<rparr> of
                      Inl e \<Rightarrow> Inl e
                    | Inr m1 \<Rightarrow>
                       (case writeCell m1 b a \<lparr> cell_r = rFinal, cell_n = nFinal \<rparr> of
                          Inl e \<Rightarrow> Inl e
                        | Inr m2 \<Rightarrow> Inr (m2, warnings)))))"

definition enforceSymmetry ::
  "VarName list \<Rightarrow> CellMatrix \<Rightarrow> js_error + CellMatrix \<times> load_warning list" where
  "enforceSymmetry vars m =
     (case foldE symmetryStep (m, []) (upperPairs vars) of
        Inl e \<Rightarrow> Inl e
      | Inr mw \<Rightarrow>
         (case foldE (\<lambda>M v. writeCell M v v diagCell) (fst mw) vars of
            Inl e \<Rightarrow> Inl e
          | Inr m2 \<Rightarrow> Inr (m2, snd mw)))"

section \<open>The aggregation of the sample sizes, as specified\<close>

text \<open>
  The specification's account of \<open>computeTotalN\<close>, to be compared with the function:
  the \<open>n\<close> of a pair is the minimum of the two sides when both are finite, the single
  finite side otherwise, and none when neither is; the collected values are those of
  the pairs that have one.
\<close>

definition pairN :: "CellMatrix \<Rightarrow> VarName \<Rightarrow> VarName \<Rightarrow> real option" where
  "pairN M a b =
     (case (optN (getCell M a b), optN (getCell M b a)) of
        (Fin x, Fin y) \<Rightarrow> Some (min x y)
      | (Fin x, _) \<Rightarrow> Some x
      | (_, Fin y) \<Rightarrow> Some y
      | _ \<Rightarrow> None)"

definition collectedN :: "VarName list \<Rightarrow> CellMatrix \<Rightarrow> real list" where
  "collectedN vars M = List.map_filter (\<lambda>ab. pairN M (fst ab) (snd ab)) (upperPairs vars)"

section \<open>Auxiliary definitions\<close>

text \<open>The error the pair loop of the validator pushes for one pair.\<close>

definition symErr :: "CellMatrix \<Rightarrow> VarName \<times> VarName \<Rightarrow> finding list" where
  "symErr M ab =
     (if isFinite (optR (getCell M (fst ab) (snd ab))) \<and> isFinite (optR (getCell M (snd ab) (fst ab)))
         \<and> ngt (nabs (nsub (optR (getCell M (fst ab) (snd ab))) (optR (getCell M (snd ab) (fst ab))))) (Fin 0.000001)
      then [NotSymmetricR (fst ab) (snd ab)] else [])"

text \<open>The warnings of the text loader that report a mismatch of \<open>r\<close> for the pair \<open>(a, b)\<close>.\<close>

fun isRMismatchFor :: "VarName \<Rightarrow> VarName \<Rightarrow> load_warning \<Rightarrow> bool" where
  "isRMismatchFor a b (RMismatch p q x y) = (p = a \<and> q = b)"
| "isRMismatchFor a b (NMismatch p q x y) = False"




section \<open>Example inputs\<close>

definition mkCell :: "real \<Rightarrow> real \<Rightarrow> Cell" where
  "mkCell x k = \<lparr> cell_r = Fin x, cell_n = Fin k \<rparr>"

definition edge :: "VarName \<Rightarrow> VarName \<Rightarrow> Edge" where
  "edge a b = \<lparr> e_from = a, e_to = b \<rparr>"

text \<open>Two variables, \<open>r(x, y) = 0.5\<close> on both sides.\<close>

definition exM2 :: CellMatrix where
  "exM2 = [''x'' \<mapsto> [''x'' \<mapsto> diagCell, ''y'' \<mapsto> mkCell 0.5 10],
           ''y'' \<mapsto> [''x'' \<mapsto> mkCell 0.5 10, ''y'' \<mapsto> diagCell]]"

text \<open>The same, but for the cell \<open>(y, x)\<close>.\<close>

definition exM2' :: CellMatrix where
  "exM2' = [''x'' \<mapsto> [''x'' \<mapsto> diagCell, ''y'' \<mapsto> mkCell 0.5 10],
            ''y'' \<mapsto> [''x'' \<mapsto> mkCell 0.3 7, ''y'' \<mapsto> diagCell]]"

text \<open>
  Three variables: the two sides of \<open>(a, b)\<close> hold \<open>n = 10\<close> and \<open>n = 20\<close>, one side of
  \<open>(a, c)\<close> holds \<open>n = 30\<close>, and neither side of \<open>(b, c)\<close> holds an \<open>n\<close>.
\<close>

definition exN3 :: CellMatrix where
  "exN3 = [''a'' \<mapsto> [''a'' \<mapsto> diagCell, ''b'' \<mapsto> mkCell 0.1 10, ''c'' \<mapsto> mkCell 0.2 30],
           ''b'' \<mapsto> [''a'' \<mapsto> mkCell 0.1 20, ''b'' \<mapsto> diagCell, ''c'' \<mapsto> \<lparr> cell_r = Fin 0.3, cell_n = NaN \<rparr>],
           ''c'' \<mapsto> [''a'' \<mapsto> \<lparr> cell_r = Fin 0.2, cell_n = NaN \<rparr>,
                     ''b'' \<mapsto> \<lparr> cell_r = Fin 0.3, cell_n = NaN \<rparr>, ''c'' \<mapsto> diagCell]]"


text \<open>Two variables whose two sides disagree: \<open>r(x, y) = 0.5\<close> and \<open>r(y, x) = 0.3\<close>.\<close>

definition exAsym :: CellMatrix where
  "exAsym = [''x'' \<mapsto> [''x'' \<mapsto> diagCell, ''y'' \<mapsto> mkCell 0.5 10],
             ''y'' \<mapsto> [''x'' \<mapsto> mkCell 0.3 10, ''y'' \<mapsto> diagCell]]"

text \<open>The row of \<open>x\<close> is missing, and the cell \<open>(y, x)\<close> of the row that exists holds nothing.\<close>

definition exMissingRow :: CellMatrix where
  "exMissingRow = [''y'' \<mapsto> [''x'' \<mapsto> nanCell, ''y'' \<mapsto> diagCell]]"

text \<open>Several defects at once: a diagonal of \<open>0.5\<close>, \<open>r = 2\<close> with \<open>n = 1\<close>, and an empty cell.\<close>

definition exBad :: CellMatrix where
  "exBad = [''x'' \<mapsto> [''x'' \<mapsto> \<lparr> cell_r = Fin 0.5, cell_n = NaN \<rparr>, ''y'' \<mapsto> mkCell 2 1],
            ''y'' \<mapsto> [''x'' \<mapsto> nanCell, ''y'' \<mapsto> diagCell]]"





section \<open>Degrees-of-freedom accounting\<close>

text \<open>
  C5.  For a list of \<open>p\<close> distinct variables and a duplicate-free list of edges,
  \<open>countDF\<close> returns \<open>observedMoments = p(p+1)/2\<close>, \<open>freeParams\<close> = the number of edges
  plus the number of distinct variables that are the target of some edge,
  \<open>df = max(0, observedMoments - freeParams)\<close> and \<open>df0 = p(p-1)/2\<close>.
\<close>

theorem countDF_accounting:
  assumes "distinct vars" and "distinct edges"
  shows "observedMoments (countDF vars edges) = real (length vars) * (real (length vars) + 1) / 2
       \<and> freeParams (countDF vars edges)
           = real (card (set edges)) + real (card {v \<in> set vars. \<exists>e \<in> set edges. e_to e = v})
       \<and> df (countDF vars edges)
           = max 0 (observedMoments (countDF vars edges) - freeParams (countDF vars edges))
       \<and> df0 (countDF vars edges) = real (length vars) * (real (length vars) - 1) / 2"
proof -
  let ?F = "filter (\<lambda>v. v \<in> set (map e_to edges)) vars"
  have eq: "{v \<in> set vars. \<exists>e \<in> set edges. e_to e = v} = set ?F"
    by auto
  have "distinct ?F"
    using assms(1) by simp
  then have "card (set ?F) = length ?F"
    by (rule distinct_card)
  then have c1: "card {v \<in> set vars. \<exists>e \<in> set edges. e_to e = v} = length ?F"
    by (simp only: eq)
  have c2: "card (set edges) = length edges"
    using assms(2) by (rule distinct_card)
  show ?thesis
    unfolding c1 c2 by (simp add: countDF_def Let_def)
qed

theorem countDF_accounting_witness:
  "distinct [''a'', ''b'', ''c''] \<and> distinct [\<lparr>e_from = ''a'', e_to = ''c''\<rparr>, \<lparr>e_from = ''b'', e_to = ''c''\<rparr>]
   \<and> observedMoments (countDF [''a'', ''b'', ''c''] [\<lparr>e_from = ''a'', e_to = ''c''\<rparr>, \<lparr>e_from = ''b'', e_to = ''c''\<rparr>]) = 6
   \<and> freeParams (countDF [''a'', ''b'', ''c''] [\<lparr>e_from = ''a'', e_to = ''c''\<rparr>, \<lparr>e_from = ''b'', e_to = ''c''\<rparr>]) = 3
   \<and> df (countDF [''a'', ''b'', ''c''] [\<lparr>e_from = ''a'', e_to = ''c''\<rparr>, \<lparr>e_from = ''b'', e_to = ''c''\<rparr>]) = 3
   \<and> df0 (countDF [''a'', ''b'', ''c''] [\<lparr>e_from = ''a'', e_to = ''c''\<rparr>, \<lparr>e_from = ''b'', e_to = ''c''\<rparr>]) = 3"
  using countDF_accounting [of "[''a'', ''b'', ''c'']"
      "[\<lparr>e_from = ''a'', e_to = ''c''\<rparr>, \<lparr>e_from = ''b'', e_to = ''c''\<rparr>]"]
  by (simp add: countDF_def)

section \<open>Auxiliary facts\<close>

lemma mapE_cong_set: "(\<And>x. x \<in> set xs \<Longrightarrow> f x = g x) \<Longrightarrow> mapE f xs = mapE g xs"
proof (induction xs)
  case Nil
  show ?case by simp
next
  case (Cons a xs)
  have "f a = g a" by (rule Cons.prems) simp
  moreover have "mapE f xs = mapE g xs" by (rule Cons.IH) (simp add: Cons.prems)
  ultimately show ?case by (simp split: sum.splits)
qed

lemma foldE_cong_set: "(\<And>s x. x \<in> set xs \<Longrightarrow> f s x = g s x) \<Longrightarrow> foldE f s xs = foldE g s xs"
proof (induction xs arbitrary: s)
  case Nil
  show ?case by simp
next
  case (Cons a xs)
  have "f s a = g s a" by (rule Cons.prems) simp
  moreover have "foldE f t xs = foldE g t xs" for t by (rule Cons.IH) (simp add: Cons.prems)
  ultimately show ?case by (simp split: sum.splits)
qed

lemma estimateVar_agree:
  assumes "\<forall>a\<in>set (parentsOf y edges). (\<forall>b\<in>set (parentsOf y edges). getCell M1 a b = getCell M2 a b)
             \<and> getCell M1 a y = getCell M2 a y"
  shows "estimateVar M1 edges acc y = estimateVar M2 edges acc y"
proof -
  let ?X = "parentsOf y edges"
  have 1: "mapE (\<lambda>a. mapE (\<lambda>b. readR M1 a b) ?X) ?X = mapE (\<lambda>a. mapE (\<lambda>b. readR M2 a b) ?X) ?X"
  proof (rule mapE_cong_set)
    fix a assume a: "a \<in> set ?X"
    show "mapE (\<lambda>b. readR M1 a b) ?X = mapE (\<lambda>b. readR M2 a b) ?X"
    proof (rule mapE_cong_set)
      fix b assume "b \<in> set ?X"
      then show "readR M1 a b = readR M2 a b" using assms a by (simp add: readR_def)
    qed
  qed
  have 2: "mapE (\<lambda>a. readR M1 a y) ?X = mapE (\<lambda>a. readR M2 a y) ?X"
  proof (rule mapE_cong_set)
    fix a assume a: "a \<in> set ?X"
    then show "readR M1 a y = readR M2 a y" using assms by (simp add: readR_def)
  qed
  show ?thesis
    by (simp only: estimateVar_def Let_def 1 2)
qed

lemma nadd_zero_left: "nadd (Fin 0) x = x"
  by (cases x) auto

lemma nmul_one_left: "nmul (Fin 1) x = x"
  by (cases x) auto

lemma matInverse_one: "matInverse [[Fin 1]] = Inr [[Fin 1]]"
  by (simp add: matInverse_def matClone_def matIdentity_def gjStep_def pivotSearch_def entry_def
      nth_num_def swapRows_def ngt_def nsub_def Let_def)

lemma foldE_member_step:
  "foldE f s xs = Inr t \<Longrightarrow> x \<in> set xs \<Longrightarrow> \<exists>a b. f a x = Inr b"
proof (induction xs arbitrary: s)
  case Nil
  then show ?case by simp
next
  case (Cons a xs)
  from Cons.prems(1) obtain s' where s': "f s a = Inr s'" and rest: "foldE f s' xs = Inr t"
    by (auto split: sum.splits)
  show ?case
  proof (cases "x = a")
    case True
    then show ?thesis using s' by blast
  next
    case False
    then show ?thesis using Cons.IH [OF rest] Cons.prems(2) by simp
  qed
qed

lemma foldE_invariant:
  assumes "foldE f s xs = Inr t" and "P s"
    and "\<And>a x b. x \<in> set xs \<Longrightarrow> P a \<Longrightarrow> f a x = Inr b \<Longrightarrow> P b"
  shows "P t"
  using assms
proof (induction xs arbitrary: s)
  case Nil
  then show ?case by simp
next
  case (Cons a xs)
  from Cons.prems(1) obtain s' where s': "f s a = Inr s'" and rest: "foldE f s' xs = Inr t"
    by (auto split: sum.splits)
  have "P s'" using Cons.prems(3) [of a s s'] Cons.prems(2) s' by simp
  show ?case
  proof (rule Cons.IH [OF rest \<open>P s'\<close>])
    fix a' x b assume "x \<in> set xs" "P a'" "f a' x = Inr b"
    then show "P b" using Cons.prems(3) [of x a' b] by simp
  qed
qed


lemma foldE_establish:
  assumes "foldE f s xs = Inr t" and "y \<in> set xs"
    and "\<And>a b. f a y = Inr b \<Longrightarrow> Q b"
    and "\<And>a x b. Q a \<Longrightarrow> f a x = Inr b \<Longrightarrow> Q b"
  shows "Q t"
  using assms(1,2)
proof (induction xs arbitrary: s)
  case Nil
  then show ?case by simp
next
  case (Cons a xs)
  from Cons.prems(1) obtain s' where s': "f s a = Inr s'" and rest: "foldE f s' xs = Inr t"
    by (auto split: sum.splits)
  show ?case
  proof (cases "a = y")
    case True
    then have "Q s'" using assms(3) s' by simp
    then show ?thesis
      using rest assms(4) by (rule_tac foldE_invariant [where P = Q and f = f and s = s' and xs = xs]) auto
  next
    case False
    then show ?thesis using Cons.IH [OF rest] Cons.prems(2) by simp
  qed
qed

lemma estimateVar_single:
  assumes X: "parentsOf y edges = [x]"
    and d: "getCell cellM x x = Some cxx" "cell_r cxx = Fin 1"
    and st: "estimateVar cellM edges acc y = Inr acc'"
  shows "\<exists>rxy. readR cellM x y = Inr rxy
          \<and> coeffs acc' = coeffs acc @ [\<lparr> c_from = x, c_to = y, beta = rxy \<rparr>]
          \<and> r2 acc' = (r2 acc)(y \<mapsto> nmul rxy rxy)"
proof (cases "readR cellM x y")
  case (Inl e)
  then show ?thesis using st X by (simp add: estimateVar_def Let_def split: sum.splits)
next
  case (Inr rxy)
  have rxx: "readR cellM x x = Inr (Fin 1)" using d by (simp add: readR_def)
  have mv: "matVecMul [[Fin 1]] [rxy] = [rxy]"
    by (simp add: matVecMul_def nth_num_def nadd_zero_left nmul_one_left)
  have vd: "vecDot [rxy] [rxy] = nmul rxy rxy"
    by (simp add: vecDot_def nth_num_def nadd_zero_left)
  have "acc' = \<lparr> coeffs = coeffs acc @ [\<lparr> c_from = x, c_to = y, beta = rxy \<rparr>],
                  r2 = (r2 acc)(y \<mapsto> nmul rxy rxy),
                  resid = (resid acc)(y \<mapsto> nmax (Fin 0.00000001) (nsub (Fin 1) (nmul rxy rxy))) \<rparr>"
    using st X Inr rxx by (simp add: estimateVar_def Let_def matInverse_one mv vd nth_num_def)
  then show ?thesis using Inr by simp
qed

lemma estimateVar_other:
  assumes "estimateVar cellM edges acc v = Inr acc'"
  shows "\<exists>cs. coeffs acc' = coeffs acc @ cs \<and> (\<forall>c\<in>set cs. c_to c = v)
            \<and> (\<forall>w. w \<noteq> v \<longrightarrow> r2 acc' w = r2 acc w)"
  using assms
  by (auto simp add: estimateVar_def Let_def split: sum.splits if_splits)


section \<open>Single-parent regression identity\<close>

text \<open>
  C3.  If \<open>y\<close> is a variable of the model whose only incoming edge comes from \<open>x\<close>, and
  the diagonal cell \<open>(x, x)\<close> holds \<open>r = 1\<close>, then every run of the estimator that returns
  has recorded for \<open>y\<close> a coefficient from \<open>x\<close>, every coefficient into \<open>y\<close> is from \<open>x\<close>
  with \<open>beta\<close> equal to the observed \<open>r(x, y)\<close>, and \<open>R\<^sup>2(y) = r(x, y) * r(x, y)\<close>.
\<close>

theorem single_parent_identity:
  assumes y: "y \<in> set vars"
    and X: "parentsOf y edges = [x]"
    and d: "getCell cellM x x = Some cxx" "cell_r cxx = Fin 1"
    and ret: "estimatePathsFromCorrelation vars cellM edges = Inr res"
  shows "\<exists>rxy. readR cellM x y = Inr rxy
          \<and> (\<exists>c\<in>set (coeffs res). c_from c = x \<and> c_to c = y)
          \<and> (\<forall>c\<in>set (coeffs res). c_to c = y \<longrightarrow> c_from c = x \<and> beta c = rxy)
          \<and> r2 res y = Some (nmul rxy rxy)"
proof -
  let ?f = "estimateVar cellM edges"
  let ?s0 = "\<lparr> coeffs = [], r2 = Map.empty, resid = Map.empty \<rparr>"
  from ret obtain acc where fold: "foldE ?f ?s0 vars = Inr acc"
    and res: "coeffs res = coeffs acc" "r2 res = r2 acc"
    by (auto simp add: estimatePathsFromCorrelation_def Let_def split: sum.splits)
  from foldE_member_step [OF fold y] obtain a b where ab: "?f a y = Inr b" by blast
  from estimateVar_single [OF X d ab] obtain rxy where rxy: "readR cellM x y = Inr rxy" by blast
  define P where "P acc \<longleftrightarrow> (\<forall>c\<in>set (coeffs acc). c_to c = y \<longrightarrow> c_from c = x \<and> beta c = rxy)
        \<and> (\<forall>v. r2 acc y = Some v \<longrightarrow> v = nmul rxy rxy)" for acc :: EstPaths
  define Q where "Q acc \<longleftrightarrow> (\<exists>c\<in>set (coeffs acc). c_from c = x \<and> c_to c = y) \<and> r2 acc y \<noteq> None"
    for acc :: EstPaths
  have "P acc"
  proof (rule foldE_invariant [OF fold])
    show "P ?s0" by (simp add: P_def)
  next
    fix a v b assume "v \<in> set vars" and Pa: "P a" and st: "?f a v = Inr b"
    show "P b"
    proof (cases "v = y")
      case True
      from estimateVar_single [OF X d st [unfolded True]] rxy
      have "coeffs b = coeffs a @ [\<lparr> c_from = x, c_to = y, beta = rxy \<rparr>]"
        and "r2 b = (r2 a)(y \<mapsto> nmul rxy rxy)" by auto
      then show ?thesis using Pa by (auto simp add: P_def)
    next
      case False
      from estimateVar_other [OF st] obtain cs where "coeffs b = coeffs a @ cs"
        "\<forall>c\<in>set cs. c_to c = v" "\<forall>w. w \<noteq> v \<longrightarrow> r2 b w = r2 a w" by blast
      then show ?thesis using Pa False by (auto simp add: P_def)
    qed
  qed
  moreover have "Q acc"
  proof (rule foldE_establish [OF fold y])
    fix a b assume st: "?f a y = Inr b"
    from estimateVar_single [OF X d st]
    show "Q b" by (auto simp add: Q_def)
  next
    fix a v b assume Qa: "Q a" and st: "?f a v = Inr b"
    show "Q b"
    proof (cases "v = y")
      case True
      from estimateVar_single [OF X d st [unfolded True]]
      show ?thesis by (auto simp add: Q_def)
    next
      case False
      from estimateVar_other [OF st] obtain cs where "coeffs b = coeffs a @ cs"
        "\<forall>w. w \<noteq> v \<longrightarrow> r2 b w = r2 a w" by blast
      then show ?thesis using Qa False by (auto simp add: Q_def)
    qed
  qed
  ultimately show ?thesis
    using rxy res by (auto simp add: P_def Q_def)
qed

theorem single_parent_identity_witness:
  "\<exists>res. estimatePathsFromCorrelation [''x'', ''y''] exM2 [edge ''x'' ''y''] = Inr res
     \<and> readR exM2 ''x'' ''y'' = Inr (Fin 0.5)
     \<and> map beta (coeffs res) = [Fin 0.5]
     \<and> r2 res ''y'' = Some (Fin 0.25)"
proof -
  have ret: "estimatePathsFromCorrelation [''x'', ''y''] exM2 [edge ''x'' ''y'']
      = Inr \<lparr> coeffs = [\<lparr> c_from = ''x'', c_to = ''y'', beta = Fin 0.5 \<rparr>],
              r2 = [''y'' \<mapsto> Fin 0.25],
              resid = [''y'' \<mapsto> Fin 0.75] \<rparr>"
    by (simp add: estimatePathsFromCorrelation_def estimateVar_def parentsOf_def edge_def exM2_def
        readR_def getCell_def diagCell_def mkCell_def matInverse_one matVecMul_def vecDot_def
        nth_num_def nsub_def Let_def)
  have X: "parentsOf ''y'' [edge ''x'' ''y''] = [''x'']"
    by (simp add: parentsOf_def edge_def)
  have d: "getCell exM2 ''x'' ''x'' = Some diagCell" "cell_r diagCell = Fin 1"
    by (simp_all add: getCell_def exM2_def diagCell_def)
  have rd: "readR exM2 ''x'' ''y'' = Inr (Fin 0.5)"
    by (simp add: readR_def getCell_def exM2_def mkCell_def)
  from single_parent_identity [OF _ X d ret] rd
  show ?thesis by (simp add: ret)
qed

section \<open>What the estimator reads\<close>

text \<open>
  C10.  Two matrices that agree on every cell \<open>(a, b)\<close> with \<open>a\<close> and \<open>b\<close> parents of the
  same variable \<open>y\<close> of the model, and on every cell \<open>(a, y)\<close> with \<open>a\<close> a parent of \<open>y\<close>,
  give the same result of the estimator (the same coefficients, \<open>R\<^sup>2\<close> and residual
  variances, or the same exception), whatever the other cells hold.
\<close>

theorem estimate_depends_only_on_parent_cells:
  assumes "\<forall>y\<in>set vars. \<forall>a\<in>set (parentsOf y edges).
             (\<forall>b\<in>set (parentsOf y edges). getCell M1 a b = getCell M2 a b)
             \<and> getCell M1 a y = getCell M2 a y"
  shows "estimatePathsFromCorrelation vars M1 edges = estimatePathsFromCorrelation vars M2 edges"
proof -
  have "foldE (estimateVar M1 edges) s vars = foldE (estimateVar M2 edges) s vars" for s
  proof (rule foldE_cong_set)
    fix t y assume "y \<in> set vars"
    then show "estimateVar M1 edges t y = estimateVar M2 edges t y"
      using assms by (intro estimateVar_agree) blast
  qed
  then show ?thesis
    by (simp add: estimatePathsFromCorrelation_def)
qed

theorem estimate_depends_only_on_parent_cells_witness:
  "estimatePathsFromCorrelation [''x'', ''y''] exM2 [edge ''x'' ''y'']
     = estimatePathsFromCorrelation [''x'', ''y''] exM2' [edge ''x'' ''y'']
   \<and> getCell exM2 ''y'' ''x'' \<noteq> getCell exM2' ''y'' ''x''"
proof -
  have "\<forall>y\<in>set [''x'', ''y'']. \<forall>a\<in>set (parentsOf y [edge ''x'' ''y'']).
          (\<forall>b\<in>set (parentsOf y [edge ''x'' ''y'']). getCell exM2 a b = getCell exM2' a b)
          \<and> getCell exM2 a y = getCell exM2' a y"
    by (simp add: parentsOf_def edge_def getCell_def exM2_def exM2'_def)
  from estimate_depends_only_on_parent_cells [OF this]
  show ?thesis
    by (simp add: getCell_def exM2_def exM2'_def mkCell_def)
qed

section \<open>Fit statistics of a successful run\<close>

lemma countDF_df_nonneg: "0 \<le> df (countDF vars edges)"
  by (simp add: countDF_def Let_def)

lemma runTry_fields:
  assumes "runTry vars cellM edges nMethod N ws0 = Inr (est, ws)"
  shows "\<exists>S paths Sig.
           buildRMatrix vars cellM = Inr S
         \<and> estimatePathsFromCorrelation vars cellM edges = Inr paths
         \<and> impliedSigmaRecursive vars S edges (coeffs paths) (resid paths) = Inr Sig
         \<and> SRMR (fit est) = srmrOffDiag S Sig
         \<and> fit_df (fit est) = df (countDF vars edges)
         \<and> fit_observedMoments (fit est) = observedMoments (countDF vars edges)
         \<and> fit_freeParams (fit est) = freeParams (countDF vars edges)
         \<and> (if 0 < df (countDF vars edges)
              then chi2 (fit est) \<noteq> None \<and> rmsea (fit est) \<noteq> None \<and> cfi (fit est) \<noteq> None
                   \<and> tli (fit est) \<noteq> None \<and> ws = ws0
              else chi2 (fit est) = None \<and> rmsea (fit est) = None \<and> cfi (fit est) = None
                   \<and> tli (fit est) = None \<and> ws = ws0 @ [DfZero])"
  using assms
  by (auto simp add: runTry_def Let_def split: sum.splits if_splits)

text \<open>Two runs on the two-variable example: a cyclic model with \<open>df = 0\<close>, and one edge with \<open>df = 1\<close>.\<close>

lemma ex_validate: "validateCellMatrix [''x'', ''y''] exM2 = Inr \<lparr> ok = True, errors = [], warnings = [] \<rparr>"
  by code_simp

lemma ex_totalN: "computeTotalN [''x'', ''y''] exM2 Harmonic = Fin 10"
  by code_simp

lemma ex_S: "buildRMatrix [''x'', ''y''] exM2 = Inr [[Fin 1, Fin (1 / 2)], [Fin (1 / 2), Fin 1]]"
  by code_simp

lemma ex_cyc_est: "estimatePathsFromCorrelation [''x'', ''y''] exM2 [edge ''x'' ''y'', edge ''y'' ''x'']
   = Inr \<lparr> coeffs = [\<lparr> c_from = ''y'', c_to = ''x'', beta = Fin (1 / 2) \<rparr>,
                      \<lparr> c_from = ''x'', c_to = ''y'', beta = Fin (1 / 2) \<rparr>],
            r2 = [''x'' \<mapsto> Fin (1 / 4), ''y'' \<mapsto> Fin (1 / 4)],
            resid = [''x'' \<mapsto> Fin (3 / 4), ''y'' \<mapsto> Fin (3 / 4)] \<rparr>"
  by (simp add: estimatePathsFromCorrelation_def estimateVar_def parentsOf_def
      exM2_def diagCell_def mkCell_def edge_def getCell_def readR_def
      matInverse_one matVecMul_def vecDot_def nth_num_def nsub_def Let_def)

lemma ex_cyc_sigma: "impliedSigmaRecursive [''x'', ''y''] [[Fin 1, Fin (1 / 2)], [Fin (1 / 2), Fin 1]]
     [edge ''x'' ''y'', edge ''y'' ''x'']
     [\<lparr> c_from = ''y'', c_to = ''x'', beta = Fin (1 / 2) \<rparr>, \<lparr> c_from = ''x'', c_to = ''y'', beta = Fin (1 / 2) \<rparr>]
     [''x'' \<mapsto> Fin (3 / 4), ''y'' \<mapsto> Fin (3 / 4)]
   = Inr [[Fin (5 / 3), Fin (4 / 3)], [Fin (4 / 3), Fin (5 / 3)]]"
  by code_simp

lemma ex_cyc_df: "df (countDF [''x'', ''y''] [edge ''x'' ''y'', edge ''y'' ''x'']) = 0"
  by (simp add: countDF_def edge_def)

lemma ex_cyc_run:
  "\<exists>est. runEstimationAndStore [''x'', ''y''] exM2 [edge ''x'' ''y'', edge ''y'' ''x''] Harmonic
     = Inr \<lparr> matrixErrors = [], matrixWarnings = [DfZero], lastEst = Some est \<rparr>"
  by (simp add: runEstimationAndStore_def runTry_def ex_validate ex_totalN ex_S ex_cyc_est ex_cyc_sigma
      ex_cyc_df Let_def)

lemma ex_one_est: "estimatePathsFromCorrelation [''x'', ''y''] exM2 [edge ''x'' ''y'']
   = Inr \<lparr> coeffs = [\<lparr> c_from = ''x'', c_to = ''y'', beta = Fin (1 / 2) \<rparr>],
            r2 = [''y'' \<mapsto> Fin (1 / 4)],
            resid = [''y'' \<mapsto> Fin (3 / 4)] \<rparr>"
  by (simp add: estimatePathsFromCorrelation_def estimateVar_def parentsOf_def
      exM2_def diagCell_def mkCell_def edge_def getCell_def readR_def
      matInverse_one matVecMul_def vecDot_def nth_num_def nsub_def Let_def)

lemma ex_one_sigma: "impliedSigmaRecursive [''x'', ''y''] [[Fin 1, Fin (1 / 2)], [Fin (1 / 2), Fin 1]]
     [edge ''x'' ''y'']
     [\<lparr> c_from = ''x'', c_to = ''y'', beta = Fin (1 / 2) \<rparr>]
     [''y'' \<mapsto> Fin (3 / 4)]
   = Inr [[Fin 1, Fin (1 / 2)], [Fin (1 / 2), Fin 1]]"
  by code_simp

lemma ex_one_df: "df (countDF [''x'', ''y''] [edge ''x'' ''y'']) = 1"
  by (simp add: countDF_def edge_def)

lemma ex_det: "matDet [[Fin 1, Fin (1 / 2)], [Fin (1 / 2), Fin 1]] = Fin (3 / 4)"
  by code_simp

lemma ex_inv: "matInverse [[Fin 1, Fin (1 / 2)], [Fin (1 / 2), Fin 1]] = Inr [[Fin (4 / 3), Fin (- (2 / 3))], [Fin (- (2 / 3)), Fin (4 / 3)]]"
  by code_simp

lemma ex_inv0: "matInverse [[Fin 1, Fin 0], [Fin 0, Fin 1]] = Inr [[Fin 1, Fin 0], [Fin 0, Fin 1]]"
  by code_simp

lemma ex_fit: "\<exists>cc. fitML [[Fin 1, Fin (1 / 2)], [Fin (1 / 2), Fin 1]] [[Fin 1, Fin (1 / 2)], [Fin (1 / 2), Fin 1]] (Fin 10) = Inr cc"
  by (simp add: fitML_def ex_det ex_inv ex_inv0 matMul_def entry_def nth_num_def Let_def)

lemma ex_one_run:
  "\<exists>est. runEstimationAndStore [''x'', ''y''] exM2 [edge ''x'' ''y''] Harmonic
     = Inr \<lparr> matrixErrors = [], matrixWarnings = [], lastEst = Some est \<rparr>"
  using ex_fit
  by (auto simp add: runEstimationAndStore_def runTry_def ex_validate ex_totalN ex_S ex_one_est ex_one_sigma
      ex_one_df Let_def)

text \<open>
  C4.  In every run of \<open>runEstimationAndStore\<close> that stores a result, each of the fields
  \<open>chi2\<close>, \<open>rmsea\<close>, \<open>cfi\<close> and \<open>tli\<close> of its fit statistics is present if and only if
  \<open>df > 0\<close>; the warning that the fit indices are not meaningful is among the warnings
  if and only if \<open>df = 0\<close>; and \<open>SRMR\<close>, \<open>df\<close>, \<open>observedMoments\<close> and \<open>freeParams\<close> hold
  the values computed from the observed and implied matrices and by \<open>countDF\<close> in
  either case.
\<close>

theorem chi2_fields_iff_df_positive:
  assumes run: "runEstimationAndStore vars cellM edges nMethod = Inr st"
    and est: "lastEst st = Some est"
  shows "(chi2 (fit est) \<noteq> None \<longleftrightarrow> 0 < fit_df (fit est))
       \<and> (rmsea (fit est) \<noteq> None \<longleftrightarrow> 0 < fit_df (fit est))
       \<and> (cfi (fit est) \<noteq> None \<longleftrightarrow> 0 < fit_df (fit est))
       \<and> (tli (fit est) \<noteq> None \<longleftrightarrow> 0 < fit_df (fit est))
       \<and> (DfZero \<in> set (matrixWarnings st) \<longleftrightarrow> fit_df (fit est) = 0)
       \<and> (\<exists>S paths Sig.
             buildRMatrix vars cellM = Inr S
           \<and> estimatePathsFromCorrelation vars cellM edges = Inr paths
           \<and> impliedSigmaRecursive vars S edges (coeffs paths) (resid paths) = Inr Sig
           \<and> SRMR (fit est) = srmrOffDiag S Sig)
       \<and> fit_df (fit est) = df (countDF vars edges)
       \<and> fit_observedMoments (fit est) = observedMoments (countDF vars edges)
       \<and> fit_freeParams (fit est) = freeParams (countDF vars edges)"
proof -
  from run est obtain v N ws where
      v: "validateCellMatrix vars cellM = Inr v"
    and t: "runTry vars cellM edges nMethod N (map Finding (warnings v)) = Inr (est, ws)"
    and w: "matrixWarnings st = ws"
    by (auto simp add: runEstimationAndStore_def Let_def split: sum.splits if_splits)
  have nz: "DfZero \<notin> set (map Finding (warnings v))" by auto
  from runTry_fields [OF t] obtain S paths Sig where
      f: "buildRMatrix vars cellM = Inr S"
         "estimatePathsFromCorrelation vars cellM edges = Inr paths"
         "impliedSigmaRecursive vars S edges (coeffs paths) (resid paths) = Inr Sig"
         "SRMR (fit est) = srmrOffDiag S Sig"
         "fit_df (fit est) = df (countDF vars edges)"
         "fit_observedMoments (fit est) = observedMoments (countDF vars edges)"
         "fit_freeParams (fit est) = freeParams (countDF vars edges)"
    and c: "if 0 < df (countDF vars edges)
              then chi2 (fit est) \<noteq> None \<and> rmsea (fit est) \<noteq> None \<and> cfi (fit est) \<noteq> None
                   \<and> tli (fit est) \<noteq> None \<and> ws = map Finding (warnings v)
              else chi2 (fit est) = None \<and> rmsea (fit est) = None \<and> cfi (fit est) = None
                   \<and> tli (fit est) = None \<and> ws = map Finding (warnings v) @ [DfZero]"
    by blast
  show ?thesis
  proof (cases "0 < df (countDF vars edges)")
    case True
    with c nz f w show ?thesis by auto
  next
    case False
    then have "df (countDF vars edges) = 0" using countDF_df_nonneg [of vars edges] by simp
    with c f w False show ?thesis by auto
  qed
qed

theorem chi2_fields_iff_df_positive_witness:
  "(\<exists>st est. runEstimationAndStore [''x'', ''y''] exM2 [edge ''x'' ''y'', edge ''y'' ''x''] Harmonic = Inr st
       \<and> lastEst st = Some est
       \<and> chi2 (fit est) = None \<and> rmsea (fit est) = None \<and> cfi (fit est) = None \<and> tli (fit est) = None
       \<and> fit_df (fit est) = 0 \<and> DfZero \<in> set (matrixWarnings st))
   \<and> (\<exists>st est. runEstimationAndStore [''x'', ''y''] exM2 [edge ''x'' ''y''] Harmonic = Inr st
       \<and> lastEst st = Some est
       \<and> chi2 (fit est) \<noteq> None \<and> rmsea (fit est) \<noteq> None \<and> cfi (fit est) \<noteq> None \<and> tli (fit est) \<noteq> None
       \<and> fit_df (fit est) = 1 \<and> DfZero \<notin> set (matrixWarnings st))"
proof -
  from ex_cyc_run obtain est0 where
    r0: "runEstimationAndStore [''x'', ''y''] exM2 [edge ''x'' ''y'', edge ''y'' ''x''] Harmonic
           = Inr \<lparr> matrixErrors = [], matrixWarnings = [DfZero], lastEst = Some est0 \<rparr>" by blast
  from ex_one_run obtain est1 where
    r1: "runEstimationAndStore [''x'', ''y''] exM2 [edge ''x'' ''y''] Harmonic
           = Inr \<lparr> matrixErrors = [], matrixWarnings = [], lastEst = Some est1 \<rparr>" by blast
  have "chi2 (fit est0) = None \<and> rmsea (fit est0) = None \<and> cfi (fit est0) = None \<and> tli (fit est0) = None
       \<and> fit_df (fit est0) = 0"
    using chi2_fields_iff_df_positive [OF r0, of est0] by (auto simp add: ex_cyc_df)
  moreover have "chi2 (fit est1) \<noteq> None \<and> rmsea (fit est1) \<noteq> None \<and> cfi (fit est1) \<noteq> None
       \<and> tli (fit est1) \<noteq> None \<and> fit_df (fit est1) = 1"
    using chi2_fields_iff_df_positive [OF r1, of est1] by (auto simp add: ex_one_df)
  ultimately show ?thesis
    using r0 r1 by simp
qed

section \<open>Total N\<close>

lemma upperPairs_Nil: "upperPairs [] = []"
  by (simp add: upperPairs_def)

lemma upperPairs_Cons: "upperPairs (x # xs) = map (Pair x) xs @ upperPairs xs"
proof -
  let ?n = "length xs"
  have u0: "[0..<Suc ?n] = 0 # map Suc [0..<?n]"
    by (simp add: upt_conv_Cons map_Suc_upt del: upt_Suc)
  have first: "map (\<lambda>j. (x, (x # xs) ! j)) [Suc 0..<Suc ?n] = map (Pair x) xs"
  proof -
    have "map (\<lambda>j. (x, (x # xs) ! j)) [Suc 0..<Suc ?n] = map (\<lambda>j. (x, (x # xs) ! j)) (map Suc [0..<?n])"
      by (simp only: map_Suc_upt)
    also have "\<dots> = map (Pair x) (map (nth xs) [0..<?n])"
      by simp
    also have "\<dots> = map (Pair x) xs"
      by (simp only: map_nth)
    finally show ?thesis .
  qed
  have rest: "map (\<lambda>j. ((x # xs) ! Suc i, (x # xs) ! j)) [Suc (Suc i)..<Suc ?n]
        = map (\<lambda>j. (xs ! i, xs ! j)) [Suc i..<?n]" for i
  proof -
    have "map (\<lambda>j. ((x # xs) ! Suc i, (x # xs) ! j)) [Suc (Suc i)..<Suc ?n]
        = map (\<lambda>j. ((x # xs) ! Suc i, (x # xs) ! j)) (map Suc [Suc i..<?n])"
      by (simp only: map_Suc_upt)
    also have "\<dots> = map (\<lambda>j. (xs ! i, xs ! j)) [Suc i..<?n]"
      by simp
    finally show ?thesis .
  qed
  have "upperPairs (x # xs)
      = concat (map (\<lambda>i. map (\<lambda>j. ((x # xs) ! i, (x # xs) ! j)) [Suc i..<Suc ?n]) (0 # map Suc [0..<?n]))"
    unfolding upperPairs_def using u0 by simp
  also have "\<dots> = map (\<lambda>j. (x, (x # xs) ! j)) [Suc 0..<Suc ?n]
        @ concat (map (\<lambda>i. map (\<lambda>j. ((x # xs) ! Suc i, (x # xs) ! j)) [Suc (Suc i)..<Suc ?n]) [0..<?n])"
    by (simp add: comp_def del: upt_Suc)
  also have "\<dots> = map (Pair x) xs @ upperPairs xs"
    unfolding first rest upperPairs_def ..
  finally show ?thesis .
qed

lemma upperPairs_members:
  "ab \<in> set (upperPairs vars) \<Longrightarrow> fst ab \<in> set vars \<and> snd ab \<in> set vars"
  by (induction vars) (auto simp add: upperPairs_Nil upperPairs_Cons)

lemma upperPairs_distinct_members:
  "distinct vars \<Longrightarrow> ab \<in> set (upperPairs vars) \<Longrightarrow> fst ab \<noteq> snd ab"
proof (induction vars)
  case Nil
  then show ?case by (simp add: upperPairs_Nil)
next
  case (Cons x xs)
  then show ?case
    using upperPairs_members [of ab xs] by (auto simp add: upperPairs_Cons)
qed

lemma count_list_0: "x \<notin> set xs \<Longrightarrow> count_list xs x = 0"
  by (induction xs) auto

lemma count_list_distinct: "distinct xs \<Longrightarrow> x \<in> set xs \<Longrightarrow> count_list xs x = 1"
  by (induction xs) (auto simp add: count_list_0)

lemma count_list_map_Pair:
  "count_list (map (Pair x) xs) (a, b) = (if a = x then count_list xs b else 0)"
  by (induction xs) auto

lemma count_list_append': "count_list (xs @ ys) x = count_list xs x + count_list ys x"
  by (induction xs) auto

lemma upperPairs_count_0:
  "a \<notin> set vars \<or> b \<notin> set vars \<Longrightarrow> count_list (upperPairs vars) (a, b) = 0"
  using upperPairs_members [of "(a, b)" vars] by (intro count_list_0) auto

lemma upperPairs_once:
  "distinct vars \<Longrightarrow> a \<in> set vars \<Longrightarrow> b \<in> set vars \<Longrightarrow> a \<noteq> b
     \<Longrightarrow> count_list (upperPairs vars) (a, b) + count_list (upperPairs vars) (b, a) = 1"
proof (induction vars)
  case Nil
  then show ?case by simp
next
  case (Cons x xs)
  show ?case
  proof (cases "a = x")
    case True
    with Cons.prems have b: "b \<in> set xs" "a \<notin> set xs" "b \<noteq> x" by auto
    then show ?thesis
      using Cons.prems True
      by (simp add: upperPairs_Cons count_list_append' count_list_map_Pair count_list_distinct
          upperPairs_count_0)
  next
    case False
    note ax = this
    show ?thesis
    proof (cases "b = x")
      case True
      with Cons.prems have "a \<in> set xs" "b \<notin> set xs" by auto
      then show ?thesis
        using Cons.prems True ax
        by (simp add: upperPairs_Cons count_list_append' count_list_map_Pair count_list_distinct
            upperPairs_count_0)
    next
      case False
      with ax Cons.prems have "a \<in> set xs" "b \<in> set xs" "distinct xs" by auto
      from Cons.IH [OF this(3) this(1) this(2) Cons.prems(4)] show ?thesis
        using ax False
        by (simp add: upperPairs_Cons count_list_append' count_list_map_Pair)
    qed
  qed
qed

lemma pairN_sym: "pairN M a b = pairN M b a"
  by (simp add: pairN_def min.commute split: number.splits)

lemma symN_pairN:
  "symN M a b = (case pairN M a b of None \<Rightarrow> symN M a b | Some x \<Rightarrow> Fin x)
   \<and> (isFinite (symN M a b) \<longleftrightarrow> pairN M a b \<noteq> None)"
  by (simp add: symN_def pairN_def Let_def split: number.splits)

lemma collected_filter:
  "filter isFinite (map (\<lambda>ab. symN M (fst ab) (snd ab)) ps)
     = map Fin (List.map_filter (\<lambda>ab. pairN M (fst ab) (snd ab)) ps)"
proof (induction ps)
  case Nil
  show ?case by simp
next
  case (Cons p ps)
  show ?case
    using symN_pairN [of M "fst p" "snd p"] Cons.IH
    by (cases "pairN M (fst p) (snd p)") simp_all
qed

lemma foldl_nmin_Fin: "foldl nmin (Fin m) (map Fin xs) = Fin (Min (insert m (set xs)))"
proof (induction xs arbitrary: m)
  case Nil
  show ?case by simp
next
  case (Cons x xs)
  have "nmin (Fin m) (Fin x) = Fin (min m x)" by (simp add: min_def)
  then have "foldl nmin (Fin m) (map Fin (x # xs)) = Fin (Min (insert (min m x) (set xs)))"
    using Cons.IH [of "min m x"] by simp
  also have "Min (insert (min m x) (set xs)) = Min (insert m (set (x # xs)))"
  proof (cases "set xs = {}")
    case True
    then show ?thesis by (simp add: min_def)
  next
    case False
    then show ?thesis by (simp add: min.assoc)
  qed
  finally show ?case .
qed

lemma mathMin_Fin: "xs \<noteq> [] \<Longrightarrow> mathMin (map Fin xs) = Fin (Min (set xs))"
proof (cases xs)
  case Nil
  assume "xs \<noteq> []" with Nil show ?thesis by simp
next
  case (Cons x ys)
  have "mathMin (map Fin (x # ys)) = foldl nmin (Fin x) (map Fin ys)"
    by (simp add: mathMin_def)
  then show ?thesis using Cons by (simp add: foldl_nmin_Fin)
qed

lemma harmonic_denominator:
  "\<forall>x\<in>set xs. x \<noteq> 0 \<Longrightarrow>
   foldl nadd (Fin s) (map (\<lambda>x. ndiv (Fin 1) (Fin x)) xs) = Fin (s + (\<Sum>x\<leftarrow>xs. 1 / x))"
  by (induction xs arbitrary: s) (simp_all add: algebra_simps)

lemma sum_inverse_pos:
  "xs \<noteq> [] \<Longrightarrow> \<forall>x\<in>set xs. 0 < x \<Longrightarrow> 0 < (\<Sum>x\<leftarrow>xs. 1 / (x::real))"
proof (induction xs)
  case Nil
  then show ?case by simp
next
  case (Cons x xs)
  have "0 \<le> (\<Sum>x\<leftarrow>xs. 1 / x)"
    using Cons.prems(2) by (intro sum_list_nonneg) auto
  moreover have "0 < 1 / x" using Cons.prems(2) by simp
  ultimately have "0 < 1 / x + (\<Sum>x\<leftarrow>xs. 1 / x)" by (rule add_pos_nonneg [rotated])
  then show ?case by simp
qed

lemma computeTotalN_collectedN:
  "computeTotalN vars M method =
     (let ns = collectedN vars M
      in if ns = [] then NaN
         else if method = Minimum then Fin (Min (set ns))
         else ndiv (Fin (real (length ns))) (foldl nadd (Fin 0) (map (\<lambda>x. ndiv (Fin 1) (Fin x)) ns)))"
proof -
  have f: "foldl (\<lambda>d n. nadd d (ndiv (Fin 1) n)) (Fin 0) (map Fin ns)
      = foldl nadd (Fin 0) (map (\<lambda>x. ndiv (Fin 1) (Fin x)) ns)" for ns
    by (simp add: foldl_map)
  show ?thesis
    unfolding computeTotalN_def collected_filter collectedN_def [symmetric] Let_def
    by (simp add: mathMin_Fin f)
qed

text \<open>
  C6.  For a list of distinct variables, the loop of \<open>computeTotalN\<close> visits every
  unordered pair of distinct variables exactly once and nothing else; the \<open>n\<close> of a pair
  (the minimum of the two sides when both are finite, the single finite side
  otherwise, none when neither is) does not depend on the order of the pair; and the
  function returns \<open>NaN\<close> when no pair has an \<open>n\<close>, the minimum of the collected values
  for the method "min", and the count divided by the sum of the reciprocals for the
  method "harmonic" (in real arithmetic when the values are positive).
\<close>

theorem computeTotalN_collects:
  assumes "distinct vars"
  shows "(\<forall>a\<in>set vars. \<forall>b\<in>set vars. a \<noteq> b \<longrightarrow>
            count_list (upperPairs vars) (a, b) + count_list (upperPairs vars) (b, a) = 1)
       \<and> (\<forall>ab\<in>set (upperPairs vars). fst ab \<in> set vars \<and> snd ab \<in> set vars \<and> fst ab \<noteq> snd ab)
       \<and> (\<forall>a b. pairN M a b = pairN M b a)
       \<and> computeTotalN vars M method =
           (let ns = collectedN vars M
            in if ns = [] then NaN
               else if method = Minimum then Fin (Min (set ns))
               else ndiv (Fin (real (length ns))) (foldl nadd (Fin 0) (map (\<lambda>x. ndiv (Fin 1) (Fin x)) ns)))
       \<and> (collectedN vars M \<noteq> [] \<and> (\<forall>x\<in>set (collectedN vars M). 0 < x) \<longrightarrow>
            computeTotalN vars M Harmonic
              = Fin (real (length (collectedN vars M)) / (\<Sum>x\<leftarrow>collectedN vars M. 1 / x)))"
proof (intro conjI)
  show "\<forall>a\<in>set vars. \<forall>b\<in>set vars. a \<noteq> b \<longrightarrow>
            count_list (upperPairs vars) (a, b) + count_list (upperPairs vars) (b, a) = 1"
    using assms by (simp add: upperPairs_once)
  show "\<forall>ab\<in>set (upperPairs vars). fst ab \<in> set vars \<and> snd ab \<in> set vars \<and> fst ab \<noteq> snd ab"
    using assms upperPairs_members upperPairs_distinct_members by blast
  show "\<forall>a b. pairN M a b = pairN M b a"
    using pairN_sym by blast
  show "computeTotalN vars M method =
           (let ns = collectedN vars M
            in if ns = [] then NaN
               else if method = Minimum then Fin (Min (set ns))
               else ndiv (Fin (real (length ns))) (foldl nadd (Fin 0) (map (\<lambda>x. ndiv (Fin 1) (Fin x)) ns)))"
    by (rule computeTotalN_collectedN)
  show "collectedN vars M \<noteq> [] \<and> (\<forall>x\<in>set (collectedN vars M). 0 < x) \<longrightarrow>
            computeTotalN vars M Harmonic
              = Fin (real (length (collectedN vars M)) / (\<Sum>x\<leftarrow>collectedN vars M. 1 / x))"
  proof
    assume h: "collectedN vars M \<noteq> [] \<and> (\<forall>x\<in>set (collectedN vars M). 0 < x)"
    let ?ns = "collectedN vars M"
    have nz: "\<forall>x\<in>set ?ns. x \<noteq> 0" using h by auto
    have pos: "0 < (\<Sum>x\<leftarrow>?ns. 1 / x)" using h by (intro sum_inverse_pos) auto
    show "computeTotalN vars M Harmonic = Fin (real (length ?ns) / (\<Sum>x\<leftarrow>?ns. 1 / x))"
      using h pos harmonic_denominator [OF nz, of 0]
      by (simp add: computeTotalN_collectedN Let_def)
  qed
qed

theorem computeTotalN_collects_witness:
  "distinct [''a'', ''b'', ''c'']
   \<and> collectedN [''a'', ''b'', ''c''] exN3 = [10, 30]
   \<and> computeTotalN [''a'', ''b'', ''c''] exN3 Minimum = Fin 10
   \<and> computeTotalN [''a'', ''b'', ''c''] exN3 Harmonic = Fin 15"
proof -
  have d: "distinct [''a'', ''b'', ''c'']" by simp
  have c: "collectedN [''a'', ''b'', ''c''] exN3 = [10, 30]" by code_simp
  have "computeTotalN [''a'', ''b'', ''c''] exN3 Minimum = Fin 10"
    using computeTotalN_collects [OF d, of exN3 Minimum] by (simp add: c)
  moreover have "computeTotalN [''a'', ''b'', ''c''] exN3 Harmonic = Fin 15"
    using computeTotalN_collects [OF d, of exN3 Harmonic] by (simp add: c)
  ultimately show ?thesis using c by simp
qed

section \<open>The validator\<close>

lemma missing_rows:
  "concat (map (\<lambda>r. if M r = None then [MissingRow r] else []) vars)
     = map MissingRow (filter (\<lambda>r. M r = None) vars)"
  by (induction vars) auto

lemma checkPair_errors:
  "checkPair M ew ab = Inr ew' \<Longrightarrow> fst ew' = fst ew @ symErr M ab"
  by (auto simp add: checkPair_def symErr_def Let_def split: sum.splits)

lemma checkPair_warnings:
  "checkPair M ew ab = Inr ew' \<Longrightarrow> w \<in> set (snd ew') \<Longrightarrow>
     w \<in> set (snd ew) \<or> (\<exists>p q. w = NNotSymmetric p q \<or> w = VeryHighR p q)"
  by (auto simp add: checkPair_def Let_def split: sum.splits if_splits)

lemma checkPair_fold_errors:
  "foldE (checkPair M) ew ps = Inr ew' \<Longrightarrow> fst ew' = fst ew @ concat (map (symErr M) ps)"
proof (induction ps arbitrary: ew)
  case Nil
  then show ?case by simp
next
  case (Cons p ps)
  from Cons.prems obtain ew1 where 1: "checkPair M ew p = Inr ew1" and 2: "foldE (checkPair M) ew1 ps = Inr ew'"
    by (auto split: sum.splits)
  show ?case using Cons.IH [OF 2] checkPair_errors [OF 1] by simp
qed

lemma checkPair_fold_warnings:
  "foldE (checkPair M) ew ps = Inr ew' \<Longrightarrow> w \<in> set (snd ew') \<Longrightarrow>
     w \<in> set (snd ew) \<or> (\<exists>p q. w = NNotSymmetric p q \<or> w = VeryHighR p q)"
proof (induction ps arbitrary: ew)
  case Nil
  then show ?case by simp
next
  case (Cons p ps)
  from Cons.prems(1) obtain ew1 where 1: "checkPair M ew p = Inr ew1" and 2: "foldE (checkPair M) ew1 ps = Inr ew'"
    by (auto split: sum.splits)
  from Cons.IH [OF 2 Cons.prems(2)] checkPair_warnings [OF 1] show ?case by blast
qed

lemma validate_missing:
  assumes "validateCellMatrix vars M = Inr v" and "\<exists>r\<in>set vars. M r = None"
  shows "v = \<lparr> ok = False, errors = map MissingRow (filter (\<lambda>r. M r = None) vars), warnings = [] \<rparr>"
proof -
  from assms(2) have "filter (\<lambda>r. M r = None) vars \<noteq> []"
    by (simp add: filter_empty_conv)
  then show ?thesis
    using assms(1) by (simp add: validateCellMatrix_def missing_rows Let_def)
qed

lemma validate_complete:
  assumes "validateCellMatrix vars M = Inr v" and "\<forall>r\<in>set vars. M r \<noteq> None"
  shows "errors v = concat (map (\<lambda>r. concat (map (\<lambda>c. checkCell M r c) vars)) vars)
                      @ concat (map (symErr M) (upperPairs vars))
       \<and> ok v = (errors v = [])
       \<and> (\<forall>w\<in>set (warnings v). \<exists>p q. w = NNotSymmetric p q \<or> w = VeryHighR p q)"
proof -
  from assms(2) have e0: "filter (\<lambda>r. M r = None) vars = []"
    by (simp add: filter_empty_conv)
  let ?e1 = "concat (map (\<lambda>r. concat (map (\<lambda>c. checkCell M r c) vars)) vars)"
  from assms(1) obtain ew where f: "foldE (checkPair M) (?e1, []) (upperPairs vars) = Inr ew"
    and v: "v = \<lparr> ok = (fst ew = []), errors = fst ew, warnings = snd ew \<rparr>"
    by (auto simp add: validateCellMatrix_def missing_rows e0 Let_def split: sum.splits)
  from checkPair_fold_errors [OF f] checkPair_fold_warnings [OF f] v
  show ?thesis by auto
qed

lemma upperPairs_nth:
  assumes "i < j" and "j < length vars"
  shows "(vars ! i, vars ! j) \<in> set (upperPairs vars)"
proof -
  have "set (upperPairs vars) = (\<Union>i\<in>{0..<length vars}. (\<lambda>k. (vars ! i, vars ! k)) ` {Suc i..<length vars})"
    by (simp add: upperPairs_def del: upt_Suc)
  moreover have "j \<in> {Suc i..<length vars}" using assms by simp
  moreover have "i \<in> {0..<length vars}" using assms by simp
  ultimately show ?thesis by blast
qed

lemma checkCell_tagged:
  "e \<in> set (checkCell M r c) \<Longrightarrow>
     e = MissingCell r c \<or> e = InvalidR r c \<or> (\<exists>x. e = ROutOfBounds r c x) \<or> (\<exists>x. e = DiagNotOne r c x)
     \<or> e = MissingN r c \<or> (\<exists>x. e = NTooSmall r c x)"
  by (auto simp add: checkCell_def Let_def split: option.splits if_splits)






section \<open>What the validator accumulates\<close>

lemma checkCell_findings:
  "(getCell M r c = None \<longrightarrow> MissingCell r c \<in> set (checkCell M r c))
   \<and> (\<forall>cell. getCell M r c = Some cell \<longrightarrow>
         (\<not> isFinite (cell_r cell) \<longrightarrow> InvalidR r c \<in> set (checkCell M r c))
       \<and> (isFinite (cell_r cell) \<and> (nlt (cell_r cell) (Fin (- 1)) \<or> ngt (cell_r cell) (Fin 1))
            \<longrightarrow> ROutOfBounds r c (cell_r cell) \<in> set (checkCell M r c))
       \<and> (r = c \<and> isFinite (cell_r cell) \<and> ngt (nabs (nsub (cell_r cell) (Fin 1))) (Fin 0.000001)
            \<longrightarrow> DiagNotOne r c (cell_r cell) \<in> set (checkCell M r c))
       \<and> (r \<noteq> c \<and> \<not> isFinite (cell_n cell) \<longrightarrow> MissingN r c \<in> set (checkCell M r c))
       \<and> (r \<noteq> c \<and> isFinite (cell_n cell) \<and> nle (cell_n cell) (Fin 2)
            \<longrightarrow> NTooSmall r c (cell_n cell) \<in> set (checkCell M r c)))"
  by (auto simp add: checkCell_def Let_def)


text \<open>
  C7 (as the code has it).  Whenever the validator returns: if some declared variable
  has no row, its errors are exactly the missing-row errors of all such variables, in
  order, with no warning, and no other check is made on any row; if every declared
  variable has a row, the errors contain every finding of every cell check (missing
  cell, non-finite \<open>r\<close>, \<open>r\<close> out of bounds, bad diagonal, missing \<open>n\<close>, \<open>n\<close> too small)
  and of every pairwise symmetry check of \<open>r\<close>, and \<open>ok\<close> holds exactly when there is
  no error.
\<close>

theorem validate_accumulates_per_phase:
  assumes ret: "validateCellMatrix vars M = Inr v"
  shows "((\<exists>r\<in>set vars. M r = None) \<longrightarrow>
            errors v = map MissingRow (filter (\<lambda>r. M r = None) vars) \<and> warnings v = [] \<and> \<not> ok v)
       \<and> ((\<forall>r\<in>set vars. M r \<noteq> None) \<longrightarrow>
            (\<forall>r\<in>set vars. \<forall>c\<in>set vars.
               (getCell M r c = None \<longrightarrow> MissingCell r c \<in> set (errors v))
             \<and> (\<forall>cell. getCell M r c = Some cell \<longrightarrow>
                   (\<not> isFinite (cell_r cell) \<longrightarrow> InvalidR r c \<in> set (errors v))
                 \<and> (isFinite (cell_r cell) \<and> (nlt (cell_r cell) (Fin (- 1)) \<or> ngt (cell_r cell) (Fin 1))
                      \<longrightarrow> ROutOfBounds r c (cell_r cell) \<in> set (errors v))
                 \<and> (r = c \<and> isFinite (cell_r cell) \<and> ngt (nabs (nsub (cell_r cell) (Fin 1))) (Fin 0.000001)
                      \<longrightarrow> DiagNotOne r c (cell_r cell) \<in> set (errors v))
                 \<and> (r \<noteq> c \<and> \<not> isFinite (cell_n cell) \<longrightarrow> MissingN r c \<in> set (errors v))
                 \<and> (r \<noteq> c \<and> isFinite (cell_n cell) \<and> nle (cell_n cell) (Fin 2)
                      \<longrightarrow> NTooSmall r c (cell_n cell) \<in> set (errors v))))
          \<and> (\<forall>i j. i < j \<and> j < length vars
                 \<and> isFinite (optR (getCell M (vars ! i) (vars ! j)))
                 \<and> isFinite (optR (getCell M (vars ! j) (vars ! i)))
                 \<and> ngt (nabs (nsub (optR (getCell M (vars ! i) (vars ! j)))
                                    (optR (getCell M (vars ! j) (vars ! i))))) (Fin 0.000001)
                 \<longrightarrow> NotSymmetricR (vars ! i) (vars ! j) \<in> set (errors v))
          \<and> (ok v \<longleftrightarrow> errors v = []))"
proof (intro conjI impI)
  assume "\<exists>r\<in>set vars. M r = None"
  from validate_missing [OF ret this]
  show "errors v = map MissingRow (filter (\<lambda>r. M r = None) vars)" "warnings v = []" "\<not> ok v"
    by simp_all
next
  assume rows: "\<forall>r\<in>set vars. M r \<noteq> None"
  note vc = validate_complete [OF ret rows]
  have sub: "set (checkCell M r c) \<subseteq> set (errors v)" if "r \<in> set vars" "c \<in> set vars" for r c
    using vc that by auto
  show "\<forall>r\<in>set vars. \<forall>c\<in>set vars.
               (getCell M r c = None \<longrightarrow> MissingCell r c \<in> set (errors v))
             \<and> (\<forall>cell. getCell M r c = Some cell \<longrightarrow>
                   (\<not> isFinite (cell_r cell) \<longrightarrow> InvalidR r c \<in> set (errors v))
                 \<and> (isFinite (cell_r cell) \<and> (nlt (cell_r cell) (Fin (- 1)) \<or> ngt (cell_r cell) (Fin 1))
                      \<longrightarrow> ROutOfBounds r c (cell_r cell) \<in> set (errors v))
                 \<and> (r = c \<and> isFinite (cell_r cell) \<and> ngt (nabs (nsub (cell_r cell) (Fin 1))) (Fin 0.000001)
                      \<longrightarrow> DiagNotOne r c (cell_r cell) \<in> set (errors v))
                 \<and> (r \<noteq> c \<and> \<not> isFinite (cell_n cell) \<longrightarrow> MissingN r c \<in> set (errors v))
                 \<and> (r \<noteq> c \<and> isFinite (cell_n cell) \<and> nle (cell_n cell) (Fin 2)
                      \<longrightarrow> NTooSmall r c (cell_n cell) \<in> set (errors v)))"
  proof (intro ballI)
    fix r c assume "r \<in> set vars" "c \<in> set vars"
    from sub [OF this] checkCell_findings [of M r c]
    show "(getCell M r c = None \<longrightarrow> MissingCell r c \<in> set (errors v))
             \<and> (\<forall>cell. getCell M r c = Some cell \<longrightarrow>
                   (\<not> isFinite (cell_r cell) \<longrightarrow> InvalidR r c \<in> set (errors v))
                 \<and> (isFinite (cell_r cell) \<and> (nlt (cell_r cell) (Fin (- 1)) \<or> ngt (cell_r cell) (Fin 1))
                      \<longrightarrow> ROutOfBounds r c (cell_r cell) \<in> set (errors v))
                 \<and> (r = c \<and> isFinite (cell_r cell) \<and> ngt (nabs (nsub (cell_r cell) (Fin 1))) (Fin 0.000001)
                      \<longrightarrow> DiagNotOne r c (cell_r cell) \<in> set (errors v))
                 \<and> (r \<noteq> c \<and> \<not> isFinite (cell_n cell) \<longrightarrow> MissingN r c \<in> set (errors v))
                 \<and> (r \<noteq> c \<and> isFinite (cell_n cell) \<and> nle (cell_n cell) (Fin 2)
                      \<longrightarrow> NTooSmall r c (cell_n cell) \<in> set (errors v)))"
      by blast
  qed
  show "\<forall>i j. i < j \<and> j < length vars
                 \<and> isFinite (optR (getCell M (vars ! i) (vars ! j)))
                 \<and> isFinite (optR (getCell M (vars ! j) (vars ! i)))
                 \<and> ngt (nabs (nsub (optR (getCell M (vars ! i) (vars ! j)))
                                    (optR (getCell M (vars ! j) (vars ! i))))) (Fin 0.000001)
                 \<longrightarrow> NotSymmetricR (vars ! i) (vars ! j) \<in> set (errors v)"
  proof (intro allI impI)
    fix i j
    assume h: "i < j \<and> j < length vars
                 \<and> isFinite (optR (getCell M (vars ! i) (vars ! j)))
                 \<and> isFinite (optR (getCell M (vars ! j) (vars ! i)))
                 \<and> ngt (nabs (nsub (optR (getCell M (vars ! i) (vars ! j)))
                                    (optR (getCell M (vars ! j) (vars ! i))))) (Fin 0.000001)"
    then have "(vars ! i, vars ! j) \<in> set (upperPairs vars)" by (simp add: upperPairs_nth)
    moreover have "NotSymmetricR (vars ! i) (vars ! j) \<in> set (symErr M (vars ! i, vars ! j))"
      using h by (simp add: symErr_def)
    ultimately show "NotSymmetricR (vars ! i) (vars ! j) \<in> set (errors v)"
      using vc by auto
  qed
  show "ok v \<longleftrightarrow> errors v = []" using vc by simp
qed

theorem validate_accumulates_per_phase_witness:
  "validateCellMatrix [''x'', ''y''] exBad
     = Inr \<lparr> ok = False,
             errors = [DiagNotOne ''x'' ''x'' (Fin 0.5), ROutOfBounds ''x'' ''y'' (Fin 2),
                       NTooSmall ''x'' ''y'' (Fin 1), InvalidR ''y'' ''x'', MissingN ''y'' ''x''],
             warnings = [VeryHighR ''x'' ''y''] \<rparr>
   \<and> exBad ''x'' \<noteq> None \<and> exBad ''y'' \<noteq> None"
proof -
  have ret: "validateCellMatrix [''x'', ''y''] exBad
     = Inr \<lparr> ok = False,
             errors = [DiagNotOne ''x'' ''x'' (Fin 0.5), ROutOfBounds ''x'' ''y'' (Fin 2),
                       NTooSmall ''x'' ''y'' (Fin 1), InvalidR ''y'' ''x'', MissingN ''y'' ''x''],
             warnings = [VeryHighR ''x'' ''y''] \<rparr>"
    by code_simp
  from validate_accumulates_per_phase [OF ret]
  show ?thesis using ret by (simp add: exBad_def)
qed

theorem validate_stops_after_missing_row:
  "validateCellMatrix [''x'', ''y''] exMissingRow
     = Inr \<lparr> ok = False, errors = [MissingRow ''x''], warnings = [] \<rparr>
   \<and> exMissingRow ''y'' \<noteq> None
   \<and> getCell exMissingRow ''y'' ''x'' = Some \<lparr> cell_r = NaN, cell_n = NaN \<rparr>
   \<and> checkCell exMissingRow ''y'' ''x'' = [InvalidR ''y'' ''x'', MissingN ''y'' ''x'']"
  by code_simp

section \<open>Asymmetric correlations\<close>

lemma foldE_append:
  "foldE f s (xs @ ys) = (case foldE f s xs of Inl e \<Rightarrow> Inl e | Inr s' \<Rightarrow> foldE f s' ys)"
  by (induction xs arbitrary: s) (auto split: sum.splits)

lemma writeCell_getCell:
  assumes "writeCell M r c cell = Inr M'"
  shows "getCell M' p q = (if p = r \<and> q = c then Some cell else getCell M p q)"
proof -
  from assms obtain row where row: "M r = Some row" and M': "M' = M(r \<mapsto> row(c \<mapsto> cell))"
    by (auto simp add: writeCell_def split: option.splits)
  show ?thesis
    unfolding M' getCell_def using row by simp
qed

lemma upperPairs_count_one:
  assumes "distinct vars" and "i < j" and "j < length vars"
  shows "count_list (upperPairs vars) (vars ! i, vars ! j) = 1
       \<and> count_list (upperPairs vars) (vars ! j, vars ! i) = 0"
proof -
  have ne: "vars ! i \<noteq> vars ! j"
    using assms by (simp add: nth_eq_iff_index_eq)
  have "(vars ! i, vars ! j) \<in> set (upperPairs vars)"
    using assms by (simp add: upperPairs_nth)
  then have "count_list (upperPairs vars) (vars ! i, vars ! j) \<noteq> 0"
    by (simp add: count_list_0_iff)
  moreover have "count_list (upperPairs vars) (vars ! i, vars ! j)
      + count_list (upperPairs vars) (vars ! j, vars ! i) = 1"
    using assms ne by (intro upperPairs_once) simp_all
  ultimately show ?thesis by arith
qed

lemma symErr_count:
  "count_list (concat (map (symErr M) ps)) (NotSymmetricR a b)
     = (if symErr M (a, b) = [] then 0 else count_list ps (a, b))"
proof (induction ps)
  case Nil
  show ?case by simp
next
  case (Cons p ps)
  have "count_list (symErr M p) (NotSymmetricR a b) = (if p = (a, b) \<and> symErr M (a, b) \<noteq> [] then 1 else 0)"
    by (cases p) (auto simp add: symErr_def)
  then show ?case using Cons.IH by auto
qed

lemma validate_asymmetric_r:
  assumes ret: "validateCellMatrix vars M = Inr v" and rows: "\<forall>r\<in>set vars. M r \<noteq> None"
    and dv: "distinct vars" and ij: "i < j" "j < length vars"
    and c: "getCell M (vars ! i) (vars ! j) = Some c1" "getCell M (vars ! j) (vars ! i) = Some c2"
    and r: "cell_r c1 = Fin x1" "cell_r c2 = Fin x2" "0.000001 < \<bar>x1 - x2\<bar>"
  shows "count_list (errors v) (NotSymmetricR (vars ! i) (vars ! j)) = 1 \<and> \<not> ok v
       \<and> (\<forall>w\<in>set (warnings v). \<exists>p q. w = NNotSymmetric p q \<or> w = VeryHighR p q)"
proof -
  note vc = validate_complete [OF ret rows]
  let ?a = "vars ! i" and ?b = "vars ! j"
  let ?e1 = "concat (map (\<lambda>r. concat (map (\<lambda>c. checkCell M r c) vars)) vars)"
  have "NotSymmetricR ?a ?b \<notin> set ?e1"
    using checkCell_tagged by fastforce
  then have 1: "count_list ?e1 (NotSymmetricR ?a ?b) = 0" by simp
  have s: "symErr M (?a, ?b) = [NotSymmetricR ?a ?b]"
    using c r by (simp add: symErr_def optR_def ngt_def nsub_def)
  have 2: "count_list (concat (map (symErr M) (upperPairs vars))) (NotSymmetricR ?a ?b) = 1"
    using upperPairs_count_one [OF dv ij] s by (simp add: symErr_count)
  have "count_list (errors v) (NotSymmetricR ?a ?b) = 1"
    using vc 1 2 by simp
  moreover from this have "errors v \<noteq> []" by auto
  ultimately show ?thesis using vc by simp
qed

lemma symmetryStep_effect:
  assumes "symmetryStep (m, ws) (a, b) = Inr (m', ws')"
  shows "\<exists>ca cb rF nF.
           getCell m a b = Some ca \<and> getCell m b a = Some cb
         \<and> rF = (if isFinite (cell_r ca) \<and> isFinite (cell_r cb)
                     \<and> ngt (nabs (nsub (cell_r ca) (cell_r cb))) (Fin 0.000001)
                  then clampR (ndiv (nadd (cell_r ca) (cell_r cb)) (Fin 2))
                  else if isFinite (cell_r ca) then cell_r ca
                  else if isFinite (cell_r cb) then cell_r cb else NaN)
         \<and> getCell m' a b = Some \<lparr> cell_r = rF, cell_n = nF \<rparr>
         \<and> getCell m' b a = Some \<lparr> cell_r = rF, cell_n = nF \<rparr>
         \<and> (\<forall>p q. (p, q) \<noteq> (a, b) \<and> (p, q) \<noteq> (b, a) \<longrightarrow> getCell m' p q = getCell m p q)
         \<and> filter (isRMismatchFor a b) ws'
             = filter (isRMismatchFor a b) ws @
               (if isFinite (cell_r ca) \<and> isFinite (cell_r cb)
                   \<and> ngt (nabs (nsub (cell_r ca) (cell_r cb))) (Fin 0.000001)
                then [RMismatch a b (cell_r ca) (cell_r cb)] else [])
         \<and> (\<forall>p q. (p, q) \<noteq> (a, b) \<longrightarrow> filter (isRMismatchFor p q) ws' = filter (isRMismatchFor p q) ws)"
proof -
  from assms obtain ca cb where ca: "getCell m a b = Some ca" and cb: "getCell m b a = Some cb"
    by (auto simp add: symmetryStep_def Let_def split: option.splits)
  define rMis where "rMis \<longleftrightarrow> isFinite (cell_r ca) \<and> isFinite (cell_r cb)
                     \<and> ngt (nabs (nsub (cell_r ca) (cell_r cb))) (Fin 0.000001)"
  define nMis where "nMis \<longleftrightarrow> isFinite (cell_n ca) \<and> isFinite (cell_n cb)
                     \<and> ngt (nabs (nsub (cell_n ca) (cell_n cb))) (Fin 0.000001)"
  define rF where "rF = (if rMis then clampR (ndiv (nadd (cell_r ca) (cell_r cb)) (Fin 2))
                  else if isFinite (cell_r ca) then cell_r ca
                  else if isFinite (cell_r cb) then cell_r cb else NaN)"
  define nF where "nF = (if nMis then nmin (cell_n ca) (cell_n cb)
                  else if isFinite (cell_n ca) then cell_n ca
                  else if isFinite (cell_n cb) then cell_n cb else NaN)"
  from assms ca cb obtain m1 where
      w1: "writeCell m a b \<lparr> cell_r = rF, cell_n = nF \<rparr> = Inr m1"
    and w2: "writeCell m1 b a \<lparr> cell_r = rF, cell_n = nF \<rparr> = Inr m'"
    and ws': "ws' = ws @ (if rMis then [RMismatch a b (cell_r ca) (cell_r cb)] else [])
                      @ (if nMis then [NMismatch a b (cell_n ca) (cell_n cb)] else [])"
    unfolding symmetryStep_def Let_def rMis_def nMis_def rF_def nF_def
    by (auto split: sum.splits)
  note g1 = writeCell_getCell [OF w1] and g2 = writeCell_getCell [OF w2]
  have "getCell m' a b = Some \<lparr> cell_r = rF, cell_n = nF \<rparr>"
    "getCell m' b a = Some \<lparr> cell_r = rF, cell_n = nF \<rparr>"
    "\<forall>p q. (p, q) \<noteq> (a, b) \<and> (p, q) \<noteq> (b, a) \<longrightarrow> getCell m' p q = getCell m p q"
    using g1 g2 by auto
  moreover have "filter (isRMismatchFor a b) ws'
             = filter (isRMismatchFor a b) ws @ (if rMis then [RMismatch a b (cell_r ca) (cell_r cb)] else [])"
    "\<forall>p q. (p, q) \<noteq> (a, b) \<longrightarrow> filter (isRMismatchFor p q) ws' = filter (isRMismatchFor p q) ws"
    using ws' by auto
  ultimately show ?thesis
    using ca cb unfolding rF_def rMis_def by blast
qed

lemma symmetryStep_other:
  assumes "symmetryStep mw p = Inr mw'" and "(x, y) \<noteq> (fst p, snd p)" and "(x, y) \<noteq> (snd p, fst p)"
  shows "getCell (fst mw') x y = getCell (fst mw) x y"
proof -
  have "symmetryStep (fst mw, snd mw) (fst p, snd p) = Inr (fst mw', snd mw')" using assms(1) by simp
  from symmetryStep_effect [OF this]
  have "\<forall>p' q'. (p', q') \<noteq> (fst p, snd p) \<and> (p', q') \<noteq> (snd p, fst p)
          \<longrightarrow> getCell (fst mw') p' q' = getCell (fst mw) p' q'" by blast
  then show ?thesis using assms(2,3) by blast
qed

lemma symmetryStep_other_warnings:
  assumes "symmetryStep mw p = Inr mw'" and "(x, y) \<noteq> (fst p, snd p)"
  shows "filter (isRMismatchFor x y) (snd mw') = filter (isRMismatchFor x y) (snd mw)"
proof -
  have "symmetryStep (fst mw, snd mw) (fst p, snd p) = Inr (fst mw', snd mw')" using assms(1) by simp
  from symmetryStep_effect [OF this]
  have "\<forall>p' q'. (p', q') \<noteq> (fst p, snd p)
          \<longrightarrow> filter (isRMismatchFor p' q') (snd mw') = filter (isRMismatchFor p' q') (snd mw)" by blast
  then show ?thesis using assms(2) by blast
qed

lemma symmetry_fold_untouched:
  assumes "foldE symmetryStep mw ps = Inr mw'" and "(a, b) \<notin> set ps" and "(b, a) \<notin> set ps"
  shows "getCell (fst mw') a b = getCell (fst mw) a b \<and> getCell (fst mw') b a = getCell (fst mw) b a
       \<and> filter (isRMismatchFor a b) (snd mw') = filter (isRMismatchFor a b) (snd mw)"
  using assms
proof (induction ps arbitrary: mw)
  case Nil
  then show ?case by simp
next
  case (Cons p ps)
  from Cons.prems(1) obtain mw1 where 1: "symmetryStep mw p = Inr mw1"
    and 2: "foldE symmetryStep mw1 ps = Inr mw'"
    by (auto split: sum.splits)
  have p: "(a, b) \<noteq> (fst p, snd p)" "(a, b) \<noteq> (snd p, fst p)"
     "(b, a) \<noteq> (fst p, snd p)" "(b, a) \<noteq> (snd p, fst p)" using Cons.prems(2,3) by auto
  have "getCell (fst mw1) a b = getCell (fst mw) a b"
    by (rule symmetryStep_other [OF 1 p(1) p(2)])
  moreover have "getCell (fst mw1) b a = getCell (fst mw) b a"
    by (rule symmetryStep_other [OF 1 p(3) p(4)])
  moreover have "filter (isRMismatchFor a b) (snd mw1) = filter (isRMismatchFor a b) (snd mw)"
    by (rule symmetryStep_other_warnings [OF 1 p(1)])
  moreover from Cons.IH [OF 2] Cons.prems(2,3)
  have "getCell (fst mw') a b = getCell (fst mw1) a b \<and> getCell (fst mw') b a = getCell (fst mw1) b a
       \<and> filter (isRMismatchFor a b) (snd mw') = filter (isRMismatchFor a b) (snd mw1)" by simp
  ultimately show ?case by simp
qed

lemma diag_fold_offdiag:
  "foldE (\<lambda>M v. writeCell M v v diagCell) m vs = Inr m' \<Longrightarrow> p \<noteq> q \<Longrightarrow> getCell m' p q = getCell m p q"
proof (induction vs arbitrary: m)
  case Nil
  then show ?case by simp
next
  case (Cons v vs)
  from Cons.prems(1) obtain m1 where 1: "writeCell m v v diagCell = Inr m1"
    and 2: "foldE (\<lambda>M v. writeCell M v v diagCell) m1 vs = Inr m'"
    by (auto split: sum.splits)
  show ?case using Cons.IH [OF 2 Cons.prems(2)] writeCell_getCell [OF 1, of p q] Cons.prems(2) by auto
qed

lemma enforceSymmetry_pair:
  assumes es: "enforceSymmetry vars m = Inr (m', ws)"
    and dv: "distinct vars" and ij: "i < j" "j < length vars"
    and ca: "getCell m (vars ! i) (vars ! j) = Some ca"
    and cb: "getCell m (vars ! j) (vars ! i) = Some cb"
  shows "\<exists>nF. getCell m' (vars ! i) (vars ! j)
               = Some \<lparr> cell_r = (if isFinite (cell_r ca) \<and> isFinite (cell_r cb)
                                       \<and> ngt (nabs (nsub (cell_r ca) (cell_r cb))) (Fin 0.000001)
                                    then clampR (ndiv (nadd (cell_r ca) (cell_r cb)) (Fin 2))
                                    else if isFinite (cell_r ca) then cell_r ca
                                    else if isFinite (cell_r cb) then cell_r cb else NaN),
                         cell_n = nF \<rparr>
            \<and> getCell m' (vars ! j) (vars ! i) = getCell m' (vars ! i) (vars ! j)
            \<and> filter (isRMismatchFor (vars ! i) (vars ! j)) ws
                = (if isFinite (cell_r ca) \<and> isFinite (cell_r cb)
                      \<and> ngt (nabs (nsub (cell_r ca) (cell_r cb))) (Fin 0.000001)
                   then [RMismatch (vars ! i) (vars ! j) (cell_r ca) (cell_r cb)] else [])"
proof -
  let ?a = "vars ! i" and ?b = "vars ! j"
  have ne: "?a \<noteq> ?b" using dv ij by (simp add: nth_eq_iff_index_eq)
  from es obtain mw where f: "foldE symmetryStep (m, []) (upperPairs vars) = Inr mw"
    and d: "foldE (\<lambda>M v. writeCell M v v diagCell) (fst mw) vars = Inr m'" and w: "ws = snd mw"
    by (auto simp add: enforceSymmetry_def split: sum.splits)
  note cnt = upperPairs_count_one [OF dv ij]
  from cnt have "(?a, ?b) \<in> set (upperPairs vars)"
    using count_list_0_iff [of "upperPairs vars" "(?a, ?b)"] by simp
  then obtain ps1 ps2 where ps: "upperPairs vars = ps1 @ (?a, ?b) # ps2"
    by (auto dest: split_list)
  have n1: "(?a, ?b) \<notin> set ps1" "(?a, ?b) \<notin> set ps2"
    using cnt ps by (simp_all add: count_list_0_iff [symmetric])
  have "(?b, ?a) \<notin> set (upperPairs vars)"
    using cnt by (simp add: count_list_0_iff [symmetric])
  then have n2: "(?b, ?a) \<notin> set ps1" "(?b, ?a) \<notin> set ps2" using ps by simp_all
  from f obtain mw1 mw2 where f1: "foldE symmetryStep (m, []) ps1 = Inr mw1"
    and st: "symmetryStep mw1 (?a, ?b) = Inr mw2"
    and f2: "foldE symmetryStep mw2 ps2 = Inr mw"
    unfolding ps by (auto simp add: foldE_append split: sum.splits)
  from symmetry_fold_untouched [OF f1 n1(1) n2(1)]
  have u1: "getCell (fst mw1) ?a ?b = Some ca" "getCell (fst mw1) ?b ?a = Some cb"
    "filter (isRMismatchFor ?a ?b) (snd mw1) = []"
    using ca cb by simp_all
  have "symmetryStep (fst mw1, snd mw1) (?a, ?b) = Inr (fst mw2, snd mw2)" using st by simp
  from symmetryStep_effect [OF this] u1
  obtain nF where e:
    "getCell (fst mw2) ?a ?b
       = Some \<lparr> cell_r = (if isFinite (cell_r ca) \<and> isFinite (cell_r cb)
                               \<and> ngt (nabs (nsub (cell_r ca) (cell_r cb))) (Fin 0.000001)
                            then clampR (ndiv (nadd (cell_r ca) (cell_r cb)) (Fin 2))
                            else if isFinite (cell_r ca) then cell_r ca
                            else if isFinite (cell_r cb) then cell_r cb else NaN),
                 cell_n = nF \<rparr>"
    "getCell (fst mw2) ?b ?a = getCell (fst mw2) ?a ?b"
    "filter (isRMismatchFor ?a ?b) (snd mw2)
       = (if isFinite (cell_r ca) \<and> isFinite (cell_r cb)
             \<and> ngt (nabs (nsub (cell_r ca) (cell_r cb))) (Fin 0.000001)
          then [RMismatch ?a ?b (cell_r ca) (cell_r cb)] else [])"
    by auto
  from symmetry_fold_untouched [OF f2 n1(2) n2(2)]
  have u2: "getCell (fst mw) ?a ?b = getCell (fst mw2) ?a ?b"
    "getCell (fst mw) ?b ?a = getCell (fst mw2) ?b ?a"
    "filter (isRMismatchFor ?a ?b) (snd mw) = filter (isRMismatchFor ?a ?b) (snd mw2)"
    by simp_all
  have u3: "getCell m' ?a ?b = getCell (fst mw) ?a ?b" "getCell m' ?b ?a = getCell (fst mw) ?b ?a"
    using diag_fold_offdiag [OF d] ne by simp_all
  show ?thesis
    unfolding u3 u2 w using e by simp
qed

lemma clampR_inside: "\<bar>x\<bar> \<le> 0.999 \<Longrightarrow> clampR (Fin x) = Fin x"
  by (auto simp add: clampR_def ngt_def)


text \<open>
  C1 (as the code has it).  Let \<open>a = vars[i]\<close> and \<open>b = vars[j]\<close>, \<open>i < j\<close>, be two of the
  distinct variables, with both cells present.  If the two cells hold finite
  correlations that differ by more than \<open>1e-6\<close>, the validator (when every row exists
  and it returns) records exactly one not-symmetric error for the pair, \<open>ok\<close> is false,
  and its warnings are only about \<open>n\<close> and near-unity \<open>r\<close>: it reconciles nothing.  The
  text loader of the two-matrix variant does reconcile: after \<open>enforceSymmetry\<close> both
  cells hold the same cell, whose \<open>r\<close> is the clamped average (the average itself when
  both values lie within \<open>\<plusminus>0.999\<close>, as the values that loader reads do), and exactly one
  \<open>r\<close>-mismatch warning is recorded for the pair.  If exactly one side is finite, both
  cells get that side's \<open>r\<close> and no \<open>r\<close>-mismatch warning is recorded.
\<close>

theorem asymmetric_r_error_or_average:
  assumes dv: "distinct vars" and ij: "i < j" "j < length vars"
    and c: "getCell M (vars ! i) (vars ! j) = Some c1" "getCell M (vars ! j) (vars ! i) = Some c2"
  shows "(\<forall>v x1 x2. validateCellMatrix vars M = Inr v \<and> (\<forall>r\<in>set vars. M r \<noteq> None)
            \<and> cell_r c1 = Fin x1 \<and> cell_r c2 = Fin x2 \<and> 0.000001 < \<bar>x1 - x2\<bar>
          \<longrightarrow> count_list (errors v) (NotSymmetricR (vars ! i) (vars ! j)) = 1
              \<and> \<not> ok v
              \<and> (\<forall>w\<in>set (warnings v). \<exists>p q. w = NNotSymmetric p q \<or> w = VeryHighR p q))
       \<and> (\<forall>m' ws x1 x2. enforceSymmetry vars M = Inr (m', ws)
            \<and> cell_r c1 = Fin x1 \<and> cell_r c2 = Fin x2 \<and> 0.000001 < \<bar>x1 - x2\<bar>
          \<longrightarrow> (\<exists>cell. getCell m' (vars ! i) (vars ! j) = Some cell
                     \<and> getCell m' (vars ! j) (vars ! i) = Some cell
                     \<and> cell_r cell = clampR (Fin ((x1 + x2) / 2)))
              \<and> filter (isRMismatchFor (vars ! i) (vars ! j)) ws
                   = [RMismatch (vars ! i) (vars ! j) (Fin x1) (Fin x2)]
              \<and> (\<bar>x1\<bar> \<le> 0.999 \<and> \<bar>x2\<bar> \<le> 0.999 \<longrightarrow> clampR (Fin ((x1 + x2) / 2)) = Fin ((x1 + x2) / 2)))
       \<and> (\<forall>m' ws. enforceSymmetry vars M = Inr (m', ws)
            \<and> (isFinite (cell_r c1) \<noteq> isFinite (cell_r c2))
          \<longrightarrow> (\<exists>cell. getCell m' (vars ! i) (vars ! j) = Some cell
                     \<and> getCell m' (vars ! j) (vars ! i) = Some cell
                     \<and> cell_r cell = (if isFinite (cell_r c1) then cell_r c1 else cell_r c2))
              \<and> filter (isRMismatchFor (vars ! i) (vars ! j)) ws = [])"
proof (intro conjI allI impI)
  fix v x1 x2
  assume h: "validateCellMatrix vars M = Inr v \<and> (\<forall>r\<in>set vars. M r \<noteq> None)
            \<and> cell_r c1 = Fin x1 \<and> cell_r c2 = Fin x2 \<and> 0.000001 < \<bar>x1 - x2\<bar>"
  from validate_asymmetric_r [OF _ _ dv ij c, of v x1 x2] h
  show "count_list (errors v) (NotSymmetricR (vars ! i) (vars ! j)) = 1" "\<not> ok v"
    "\<forall>w\<in>set (warnings v). \<exists>p q. w = NNotSymmetric p q \<or> w = VeryHighR p q"
    by blast+
next
  fix m' ws x1 x2
  assume h: "enforceSymmetry vars M = Inr (m', ws)
            \<and> cell_r c1 = Fin x1 \<and> cell_r c2 = Fin x2 \<and> 0.000001 < \<bar>x1 - x2\<bar>"
  then have mis: "isFinite (cell_r c1) \<and> isFinite (cell_r c2)
      \<and> ngt (nabs (nsub (cell_r c1) (cell_r c2))) (Fin 0.000001)"
    by (simp add: ngt_def nsub_def)
  have avg: "ndiv (nadd (cell_r c1) (cell_r c2)) (Fin 2) = Fin ((x1 + x2) / 2)"
    using h by simp
  from h have es: "enforceSymmetry vars M = Inr (m', ws)" by simp
  from enforceSymmetry_pair [OF es dv ij c] mis avg
  show "\<exists>cell. getCell m' (vars ! i) (vars ! j) = Some cell
                     \<and> getCell m' (vars ! j) (vars ! i) = Some cell
                     \<and> cell_r cell = clampR (Fin ((x1 + x2) / 2))"
    "filter (isRMismatchFor (vars ! i) (vars ! j)) ws
                   = [RMismatch (vars ! i) (vars ! j) (Fin x1) (Fin x2)]"
    using h by auto
  show "clampR (Fin ((x1 + x2) / 2)) = Fin ((x1 + x2) / 2)" if "\<bar>x1\<bar> \<le> 0.999 \<and> \<bar>x2\<bar> \<le> 0.999"
  proof (rule clampR_inside)
    have "\<bar>x1 + x2\<bar> \<le> \<bar>x1\<bar> + \<bar>x2\<bar>" by (rule abs_triangle_ineq)
    then show "\<bar>(x1 + x2) / 2\<bar> \<le> 0.999" using that by simp
  qed
next
  fix m' ws
  assume h: "enforceSymmetry vars M = Inr (m', ws) \<and> (isFinite (cell_r c1) \<noteq> isFinite (cell_r c2))"
  then have es: "enforceSymmetry vars M = Inr (m', ws)" by simp
  from enforceSymmetry_pair [OF es dv ij c] h
  show "\<exists>cell. getCell m' (vars ! i) (vars ! j) = Some cell
                     \<and> getCell m' (vars ! j) (vars ! i) = Some cell
                     \<and> cell_r cell = (if isFinite (cell_r c1) then cell_r c1 else cell_r c2)"
    "filter (isRMismatchFor (vars ! i) (vars ! j)) ws = []"
    by auto
qed

theorem asymmetric_r_error_or_average_witness:
  "validateCellMatrix [''x'', ''y''] exAsym
     = Inr \<lparr> ok = False, errors = [NotSymmetricR ''x'' ''y''], warnings = [] \<rparr>
   \<and> (\<exists>m' ws. enforceSymmetry [''x'', ''y''] exAsym = Inr (m', ws)
        \<and> getCell m' ''x'' ''y'' = Some \<lparr> cell_r = Fin 0.4, cell_n = Fin 10 \<rparr>
        \<and> getCell m' ''y'' ''x'' = Some \<lparr> cell_r = Fin 0.4, cell_n = Fin 10 \<rparr>
        \<and> filter (isRMismatchFor ''x'' ''y'') ws = [RMismatch ''x'' ''y'' (Fin 0.5) (Fin 0.3)])"
proof -
  have ret: "validateCellMatrix [''x'', ''y''] exAsym
     = Inr \<lparr> ok = False, errors = [NotSymmetricR ''x'' ''y''], warnings = [] \<rparr>"
    by code_simp
  have "case enforceSymmetry [''x'', ''y''] exAsym of
          Inl e \<Rightarrow> False
        | Inr mw \<Rightarrow> getCell (fst mw) ''x'' ''y'' = Some \<lparr> cell_r = Fin (2 / 5), cell_n = Fin 10 \<rparr>
                   \<and> getCell (fst mw) ''y'' ''x'' = Some \<lparr> cell_r = Fin (2 / 5), cell_n = Fin 10 \<rparr>"
    by code_simp
  then obtain m' ws where es: "enforceSymmetry [''x'', ''y''] exAsym = Inr (m', ws)"
    and g: "getCell m' ''x'' ''y'' = Some \<lparr> cell_r = Fin (2 / 5), cell_n = Fin 10 \<rparr>"
           "getCell m' ''y'' ''x'' = Some \<lparr> cell_r = Fin (2 / 5), cell_n = Fin 10 \<rparr>"
    by (auto split: sum.splits)
  have c: "getCell exAsym ([''x'', ''y''] ! 0) ([''x'', ''y''] ! 1) = Some (mkCell 0.5 10)"
          "getCell exAsym ([''x'', ''y''] ! 1) ([''x'', ''y''] ! 0) = Some (mkCell 0.3 10)"
    by (simp_all add: getCell_def exAsym_def)
  have "filter (isRMismatchFor ''x'' ''y'') ws = [RMismatch ''x'' ''y'' (Fin 0.5) (Fin 0.3)]"
  proof -
    have d: "distinct [''x'', ''y'']" "(0::nat) < 1" "1 < length [''x'', ''y'']" by simp_all
    have "enforceSymmetry [''x'', ''y''] exAsym = Inr (m', ws)
            \<and> cell_r (mkCell 0.5 10) = Fin 0.5 \<and> cell_r (mkCell 0.3 10) = Fin 0.3
            \<and> 0.000001 < \<bar>0.5 - 0.3 :: real\<bar>"
      using es by (simp add: mkCell_def)
    with asymmetric_r_error_or_average [OF d c]
    have "filter (isRMismatchFor ([''x'', ''y''] ! 0) ([''x'', ''y''] ! 1)) ws
        = [RMismatch ([''x'', ''y''] ! 0) ([''x'', ''y''] ! 1) (Fin 0.5) (Fin 0.3)]"
      by blast
    then show ?thesis by simp
  qed
  then show ?thesis using ret es g by simp
qed

theorem validate_rejects_asymmetric_r:
  "validateCellMatrix [''x'', ''y''] exAsym
     = Inr \<lparr> ok = False, errors = [NotSymmetricR ''x'' ''y''], warnings = [] \<rparr>
   \<and> getCell exAsym ''x'' ''y'' = Some \<lparr> cell_r = Fin (1 / 2), cell_n = Fin 10 \<rparr>
   \<and> getCell exAsym ''y'' ''x'' = Some \<lparr> cell_r = Fin (3 / 10), cell_n = Fin 10 \<rparr>"
  by code_simp

section \<open>The forced diagonal\<close>




lemma writeCell_rows:
  assumes "writeCell M r c cell = Inr M'"
  shows "(M' p \<noteq> None) = (M p \<noteq> None)"
proof -
  from assms obtain row where row: "M r = Some row" and M': "M' = M(r \<mapsto> row(c \<mapsto> cell))"
    by (auto simp add: writeCell_def split: option.splits)
  show ?thesis unfolding M' using row by simp
qed

lemma writeCell_ok: "M r \<noteq> None \<Longrightarrow> \<exists>M'. writeCell M r c cell = Inr M'"
  by (auto simp add: writeCell_def)


lemma ensureRow_getCell: "getCell (ensureRow M a) p q = getCell M p q"
  by (auto simp add: ensureRow_def getCell_def split: option.splits)












lemma deepClone_getCell:
  "getCell (deepClone sc M) p q = (if sc then getCell M p q else map_option jsonCell (getCell M p q))"
  by (simp add: deepClone_def jsonMatrix_def getCell_def map_option_case split: option.splits)

lemma jsonCell_diag: "jsonCell (storeCell diagCell) = \<lparr> st_r = Num (Fin 1), st_n = Null \<rparr>"
  by (simp add: jsonCell_def storeCell_def diagCell_def)











lemma setCell_ok:
  "\<exists>M'. setCell sc r c patch prev = Inr M'
       \<and> (\<forall>v. getCell M' v v
             = (if v = r \<and> r = c then Some (storeCell diagCell) else getCell (deepClone sc prev) v v))"
proof -
  let ?n0 = "deepClone sc prev"
  let ?old = "case getCell ?n0 r c of None \<Rightarrow> storeCell nanCell | Some x \<Rightarrow> x"
  have "ensureRow ?n0 r r \<noteq> None" by (simp add: ensureRow_def split: option.splits)
  with writeCell_ok [of "ensureRow ?n0 r" r c "applyPatch ?old patch"]
  obtain n1 where w1: "writeCell (ensureRow ?n0 r) r c (applyPatch ?old patch) = Inr n1"
    by blast
  have g1: "getCell n1 p q = (if p = r \<and> q = c then Some (applyPatch ?old patch) else getCell ?n0 p q)" for p q
    using writeCell_getCell [OF w1, of p q] by (simp add: ensureRow_getCell)
  show ?thesis
  proof (cases "r = c")
    case True
    have "ensureRow ?n0 r r \<noteq> None" by (simp add: ensureRow_def split: option.splits)
    then have "n1 r \<noteq> None" using writeCell_rows [OF w1, of r] by simp
    with writeCell_ok [of n1 r c "storeCell diagCell"]
    obtain M' where w2: "writeCell n1 r c (storeCell diagCell) = Inr M'" by blast
    have g2: "getCell M' p q = (if p = r \<and> q = c then Some (storeCell diagCell) else getCell n1 p q)" for p q
      using writeCell_getCell [OF w2, of p q] by simp
    have "setCell sc r c patch prev = Inr M'" using w1 w2 True by (simp add: setCell_def Let_def)
    moreover have "\<forall>v. getCell M' v v
             = (if v = r \<and> r = c then Some (storeCell diagCell) else getCell ?n0 v v)"
      using g1 g2 True by auto
    ultimately show ?thesis by blast
  next
    case False
    let ?n2 = "ensureRow n1 c"
    let ?old2 = "case getCell ?n2 c r of None \<Rightarrow> storeCell nanCell | Some x \<Rightarrow> x"
    have "?n2 c \<noteq> None" by (simp add: ensureRow_def split: option.splits)
    with writeCell_ok [of ?n2 c r "applyPatch ?old2 patch"]
    obtain M' where w2: "writeCell ?n2 c r (applyPatch ?old2 patch) = Inr M'"
      by blast
    have g2: "getCell M' p q = (if p = c \<and> q = r then Some (applyPatch ?old2 patch) else getCell n1 p q)" for p q
      using writeCell_getCell [OF w2, of p q] by (simp add: ensureRow_getCell)
    have "setCell sc r c patch prev = Inr M'" using w1 w2 False by (simp add: setCell_def Let_def)
    moreover have "\<forall>v. getCell M' v v
             = (if v = r \<and> r = c then Some (storeCell diagCell) else getCell ?n0 v v)"
      using g1 g2 False by auto
    ultimately show ?thesis by blast
  qed
qed

text \<open>
  Where \<^verbatim>\<open>structuredClone\<close> is missing, the clone that \<open>setCell\<close> makes of the state
  turns the \<open>n\<close> of every forced diagonal cell into \<^verbatim>\<open>null\<close>; only an edited
  diagonal cell is written afresh.
\<close>

lemma setCell_json_fallback:
  assumes "getCell prev v v = Some (storeCell diagCell)" and "v \<noteq> r \<or> r \<noteq> c"
  shows "\<exists>M'. setCell False r c patch prev = Inr M'
           \<and> getCell M' v v = Some \<lparr> st_r = Num (Fin 1), st_n = Null \<rparr>"
proof -
  from setCell_ok [of False r c patch prev] obtain M' where
    s: "setCell False r c patch prev = Inr M'"
    and g: "\<forall>v. getCell M' v v
             = (if v = r \<and> r = c then Some (storeCell diagCell) else getCell (deepClone False prev) v v)"
    by blast
  have "getCell M' v v = Some (jsonCell (storeCell diagCell))"
    using g assms by (auto simp add: deepClone_getCell)
  then show ?thesis using s by (simp add: jsonCell_diag)
qed




section \<open>Singular parent correlations\<close>
































end
